theory Spec2Isabelle
  imports Complex_Main "HOL-Library.Sublist" "HOL-Library.Log_Nat"
begin

section \<open>Route dispatch (tampermonkey.js, lines 148--160)\<close>

text \<open>
  JavaScript's \<^verbatim>\<open>s.includes(t)\<close>: \<open>t\<close> occurs in \<open>s\<close> as a contiguous run of
  code units, at any position. A string is the list of its code units.
\<close>

fun str_includes :: "string \<Rightarrow> string \<Rightarrow> bool" where
  "str_includes [] t = (t = [])"
| "str_includes (c # s) t = (prefix t (c # s) \<or> str_includes s t)"

text \<open>The three handlers the top-level dispatch can call.\<close>

datatype handler = HandleLabsAuthPage | HandleLabsGoogle | HandleAccountsGoogle

text \<open>
  \<^verbatim>\<open>
  if (currentHost.includes('labs.google')) {
      if (currentPath.includes('/auth/signin')) { handleLabsAuthPage(); }
      else { handleLabsGoogle(); }
  } else if (currentHost.includes('accounts.google.com')) {
      handleAccountsGoogle();
  }
  \<close>
  The result is the list of handlers called, in call order; a location that matches
  neither test calls none.
\<close>

definition route :: "string \<Rightarrow> string \<Rightarrow> handler list" where
  "route currentHost currentPath =
     (if str_includes currentHost ''labs.google'' then
        (if str_includes currentPath ''/auth/signin'' then [HandleLabsAuthPage]
         else [HandleLabsGoogle])
      else if str_includes currentHost ''accounts.google.com'' then [HandleAccountsGoogle]
      else [])"

text \<open>
  The script's \<^verbatim>\<open>@match\<close> lines (\<^verbatim>\<open>https://labs.google/*\<close> and
  \<^verbatim>\<open>https://accounts.google.com/*\<close>) admit these two hostnames only.
\<close>

definition matched_host :: "string \<Rightarrow> bool" where
  "matched_host h = (h = ''labs.google'' \<or> h = ''accounts.google.com'')"

section \<open>Cookie harvest and token sync (lines 31--80 and 289--323)\<close>

text \<open>
  The file holds two releases of the userscript: version 1.2 (lines 1--97) and
  version 1.5 (lines 97--325). \<^verbatim>\<open>syncToken\<close> is the same in both;
  \<^verbatim>\<open>sendTokenToServer\<close> differs in its response handlers.
\<close>

datatype level = LogLevel | WarnLevel | ErrorLevel

text \<open>
  A value as \<^verbatim>\<open>JSON.parse\<close> returns it. An object is the list of its
  properties; \<open>None\<close> of type \<open>json option\<close> is \<^verbatim>\<open>undefined\<close>.
\<close>

datatype json =
    JNull
  | JBool bool
  | JNum real
  | JStr string
  | JArr "json list"
  | JObj "(string \<times> json) list"

datatype js_error = SyntaxError | TypeError

text \<open>
  Property read \<^verbatim>\<open>v.k\<close>, for the keys the script reads (\<^verbatim>\<open>success\<close>,
  \<^verbatim>\<open>data\<close>, \<^verbatim>\<open>email\<close>, \<^verbatim>\<open>action\<close>; none of them is a property of
  a primitive's or an array's prototype): on \<^verbatim>\<open>null\<close> and \<^verbatim>\<open>undefined\<close>
  it throws a TypeError, on an object it looks the key up, on anything else it is
  \<^verbatim>\<open>undefined\<close>.
\<close>

fun get_prop :: "json option \<Rightarrow> string \<Rightarrow> js_error + json option" where
  "get_prop None k = Inl TypeError"
| "get_prop (Some JNull) k = Inl TypeError"
| "get_prop (Some (JObj kvs)) k = Inr (map_of kvs k)"
| "get_prop (Some v) k = Inr None"

text \<open>What \<^verbatim>\<open>if (v)\<close> tests.\<close>

fun truthy :: "json option \<Rightarrow> bool" where
  "truthy None = False"
| "truthy (Some JNull) = False"
| "truthy (Some (JBool b)) = b"
| "truthy (Some (JNum x)) = (x \<noteq> 0)"
| "truthy (Some (JStr s)) = (s \<noteq> [])"
| "truthy (Some (JArr xs)) = True"
| "truthy (Some (JObj kvs)) = True"

record cookie =
  cookie_name :: string
  cookie_value :: string

text \<open>
  The request of \<^verbatim>\<open>GM_xmlhttpRequest\<close>. The body is
  \<^verbatim>\<open>JSON.stringify({ st: st })\<close>; the record keeps the object's one field.
\<close>

record sync_request =
  http_method :: string
  url :: string
  headers :: "(string \<times> string) list"
  body_st :: string

text \<open>
  The response handed to \<^verbatim>\<open>onload\<close>. \<open>parsed\<close> is what
  \<^verbatim>\<open>JSON.parse(response.responseText)\<close> returns, \<open>None\<close> when it throws.
\<close>

record response =
  status :: int
  responseText :: string
  parsed :: "json option"

datatype xhr_outcome = Loaded response | NetworkFailed string

datatype sync_msg =
    CookieReadFailed string
  | NoSessionToken
  | TokenObtained
  | SyncSucceeded "json option" "json option"
  | ServerReturnedError json
  | ParseFailed js_error
  | HttpFailed int string
  | NetworkError string

datatype sync_effect =
    Console level sync_msg
  | SendTokenToServer string
  | XhrPost sync_request

definition API_BASE_URL :: string where
  "API_BASE_URL = ''http://localhost:8000''"

definition AUTH_TOKEN :: string where
  "AUTH_TOKEN = ''han1234''"

text \<open>\<^verbatim>\<open>if (error)\<close> on the callback's second argument: a string or nothing.\<close>

fun error_reported :: "string option \<Rightarrow> bool" where
  "error_reported None = False"
| "error_reported (Some e) = (e \<noteq> [])"

text \<open>
  The callback of \<^verbatim>\<open>GM_cookie.list\<close> in \<^verbatim>\<open>syncToken\<close> (lines 67--79 and
  290--299). \<open>cookies\<close> is the list of cookies with the name asked for, \<open>None\<close> when
  the argument is missing.
  \<^verbatim>\<open>
  if (error) { console.error("...", error); return; }
  if (cookies && cookies.length > 0) {
      const st = cookies[0].value;
      sendTokenToServer(st);
  } else { console.log("..."); }
  \<close>
\<close>

fun syncToken :: "cookie list option \<Rightarrow> string option \<Rightarrow> sync_effect list" where
  "syncToken cookies err =
     (if error_reported err then
        (case err of Some e \<Rightarrow> [Console ErrorLevel (CookieReadFailed e)] | None \<Rightarrow> [])
      else
        (case cookies of
           Some (c # cs) \<Rightarrow> [SendTokenToServer (cookie_value c)]
         | _ \<Rightarrow> [Console LogLevel NoSessionToken]))"

definition sync_post :: "string \<Rightarrow> sync_request" where
  "sync_post st =
     \<lparr> http_method = ''POST'',
       url = API_BASE_URL @ ''/api/tokens/sync'',
       headers = [(''Content-Type'', ''application/json''),
                  (''Authorization'', ''Bearer '' @ AUTH_TOKEN)],
       body_st = st \<rparr>"

text \<open>
  Version 1.2, lines 42--57: the body of the \<^verbatim>\<open>try\<close> block of \<^verbatim>\<open>onload\<close>.
  \<open>Inl\<close> is the exception that reaches the \<^verbatim>\<open>catch\<close>.
\<close>

definition try_body_1_2 :: "response \<Rightarrow> js_error + sync_effect list" where
  "try_body_1_2 r =
     (case parsed r of
        None \<Rightarrow> Inl SyntaxError
      | Some d \<Rightarrow>
          (case get_prop (Some d) ''success'' of
             Inl e \<Rightarrow> Inl e
           | Inr ok \<Rightarrow>
               if truthy ok then
                 (case get_prop (Some d) ''data'' of
                    Inl e \<Rightarrow> Inl e
                  | Inr dd \<Rightarrow>
                      (case get_prop dd ''email'' of
                         Inl e \<Rightarrow> Inl e
                       | Inr em \<Rightarrow>
                           (case get_prop dd ''action'' of
                              Inl e \<Rightarrow> Inl e
                            | Inr ac \<Rightarrow> Inr [Console LogLevel (SyncSucceeded em ac)])))
               else Inr [Console ErrorLevel (ServerReturnedError d)]))"

definition onload_1_2 :: "response \<Rightarrow> sync_effect list" where
  "onload_1_2 r =
     (if status r = 200 then
        (case try_body_1_2 r of
           Inl e \<Rightarrow> [Console ErrorLevel (ParseFailed e)]
         | Inr es \<Rightarrow> es)
      else [Console ErrorLevel (HttpFailed (status r) (responseText r))])"

definition onerror_1_2 :: "string \<Rightarrow> sync_effect list" where
  "onerror_1_2 e = [Console ErrorLevel (NetworkError e)]"

text \<open>
  Version 1.2, lines 31--62: the effects of one call of \<^verbatim>\<open>sendTokenToServer\<close>
  and of the handler that the request's outcome runs.
\<close>

definition sendTokenToServer_1_2 :: "string \<Rightarrow> xhr_outcome \<Rightarrow> sync_effect list" where
  "sendTokenToServer_1_2 st outcome =
     [Console LogLevel TokenObtained, XhrPost (sync_post st)] @
     (case outcome of
        Loaded r \<Rightarrow> onload_1_2 r
      | NetworkFailed e \<Rightarrow> onerror_1_2 e)"

text \<open>
  Version 1.5, lines 312--321: the \<^verbatim>\<open>try\<close> block reads \<^verbatim>\<open>data.data.email\<close>
  only and has no \<^verbatim>\<open>else\<close>; the \<^verbatim>\<open>catch\<close> block is empty; a status
  other than 200 has no branch; the request has no \<^verbatim>\<open>onerror\<close> handler.
\<close>

definition try_body_1_5 :: "response \<Rightarrow> js_error + sync_effect list" where
  "try_body_1_5 r =
     (case parsed r of
        None \<Rightarrow> Inl SyntaxError
      | Some d \<Rightarrow>
          (case get_prop (Some d) ''success'' of
             Inl e \<Rightarrow> Inl e
           | Inr ok \<Rightarrow>
               if truthy ok then
                 (case get_prop (Some d) ''data'' of
                    Inl e \<Rightarrow> Inl e
                  | Inr dd \<Rightarrow>
                      (case get_prop dd ''email'' of
                         Inl e \<Rightarrow> Inl e
                       | Inr em \<Rightarrow> Inr [Console LogLevel (SyncSucceeded em None)]))
               else Inr []))"

definition onload_1_5 :: "response \<Rightarrow> sync_effect list" where
  "onload_1_5 r =
     (if status r = 200 then
        (case try_body_1_5 r of Inl e \<Rightarrow> [] | Inr es \<Rightarrow> es)
      else [])"

definition sendTokenToServer_1_5 :: "string \<Rightarrow> xhr_outcome \<Rightarrow> sync_effect list" where
  "sendTokenToServer_1_5 st outcome =
     [Console LogLevel TokenObtained, XhrPost (sync_post st)] @
     (case outcome of
        Loaded r \<Rightarrow> onload_1_5 r
      | NetworkFailed e \<Rightarrow> [])"

text \<open>Observers of a trace: the requests posted, the calls made, the errors logged.\<close>

fun posts :: "sync_effect list \<Rightarrow> sync_request list" where
  "posts [] = []"
| "posts (XhrPost q # es) = q # posts es"
| "posts (e # es) = posts es"

fun send_calls :: "sync_effect list \<Rightarrow> string list" where
  "send_calls [] = []"
| "send_calls (SendTokenToServer st # es) = st # send_calls es"
| "send_calls (e # es) = send_calls es"

fun errors_logged :: "sync_effect list \<Rightarrow> sync_msg list" where
  "errors_logged [] = []"
| "errors_logged (Console ErrorLevel m # es) = m # errors_logged es"
| "errors_logged (e # es) = errors_logged es"

section \<open>Numbers\<close>

text \<open>
  A JavaScript number is an IEEE 754 double. \<open>Dbl m e\<close> is the non-negative number
  \<open>m * 2 ^ e\<close>; it is a double when \<open>m\<close> has at most 53 bits and \<open>e\<close> is in the
  doubles' range. The script's numbers stay below 2048, so overflow does not arise.
\<close>

datatype dbl = Dbl nat int

fun dbl_val :: "dbl \<Rightarrow> real" where
  "dbl_val (Dbl m e) = (if 0 \<le> e then real m * 2 ^ nat e else real m / 2 ^ nat (- e))"

fun is_dbl :: "dbl \<Rightarrow> bool" where
  "is_dbl (Dbl m e) = (m < 2 ^ 53 \<and> - 1074 \<le> e \<and> e \<le> 971)"

text \<open>
  The double nearest to \<open>n * 2 ^ e\<close>, ties to the even significand: the rounding of
  every arithmetic operation. \<open>s\<close> is the number of low bits that do not fit: those
  beyond 53 significant bits, or below the smallest exponent.
\<close>

definition round_even :: "nat \<Rightarrow> int \<Rightarrow> dbl" where
  "round_even n e =
     (let s = max (bitlen (int n) - 53) (- 1074 - e) in
      if s \<le> 0 then Dbl n e
      else (let d = 2 ^ nat s; q = n div d; r = n mod d
            in Dbl (if 2 * r < d \<or> (2 * r = d \<and> even q) then q else q + 1) (e + s)))"

text \<open>\<^verbatim>\<open>a * b\<close>, \<^verbatim>\<open>a + b\<close> and \<^verbatim>\<open>Math.floor(a)\<close> on non-negative doubles.\<close>

fun dbl_mul :: "dbl \<Rightarrow> dbl \<Rightarrow> dbl" where
  "dbl_mul (Dbl m1 e1) (Dbl m2 e2) = round_even (m1 * m2) (e1 + e2)"

fun dbl_add :: "dbl \<Rightarrow> dbl \<Rightarrow> dbl" where
  "dbl_add (Dbl m1 e1) (Dbl m2 e2) =
     round_even (m1 * 2 ^ nat (e1 - min e1 e2) + m2 * 2 ^ nat (e2 - min e1 e2)) (min e1 e2)"

fun Math_floor :: "dbl \<Rightarrow> dbl" where
  "Math_floor (Dbl m e) = (if 0 \<le> e then Dbl m e else Dbl (m div 2 ^ nat (- e)) 0)"

section \<open>The humanized input simulator (lines 244--267)\<close>

text \<open>\<^verbatim>\<open>new Event(type, { bubbles: b })\<close>.\<close>

datatype dom_event = Event string bool

text \<open>
  An input element of type text or password, as the password input of the identity
  provider's page is: its \<^verbatim>\<open>value\<close> and the events dispatched on it, oldest
  first, each with the value its listeners found in the element.
\<close>

record element =
  elem_value :: string
  dispatched :: "(dom_event \<times> string) list"

text \<open>
  The value sanitization of a text or password input: every line feed and carriage
  return is removed from the value.
\<close>

definition strip_newlines :: "string \<Rightarrow> string" where
  "strip_newlines v = filter (\<lambda>c. c \<noteq> CHR 0x0A \<and> c \<noteq> CHR 0x0D) v"

definition newline_free :: "string \<Rightarrow> bool" where
  "newline_free v = (CHR 0x0A \<notin> set v \<and> CHR 0x0D \<notin> set v)"

text \<open>
  \<^verbatim>\<open>nativeInputValueSetter.call(element, v)\<close>, the \<^verbatim>\<open>value\<close> setter of
  \<^verbatim>\<open>HTMLInputElement.prototype\<close>: it stores the sanitized value. Then
  \<^verbatim>\<open>element.dispatchEvent(ev)\<close>.
\<close>

definition native_set :: "string \<Rightarrow> element \<Rightarrow> element" where
  "native_set v e = e\<lparr>elem_value := strip_newlines v\<rparr>"

definition dispatchEvent :: "dom_event \<Rightarrow> element \<Rightarrow> element" where
  "dispatchEvent ev e = e\<lparr>dispatched := dispatched e @ [(ev, elem_value e)]\<rparr>"

text \<open>
  \<^verbatim>\<open>Math.floor(Math.random() * 100) + 50\<close> (line 253) and
  \<^verbatim>\<open>800 + Math.random() * 500\<close> (line 231), for the double \<open>r\<close> that
  \<^verbatim>\<open>Math.random()\<close> returned, in double arithmetic; the result is given by its
  value.
\<close>

definition keystroke_delay :: "dbl \<Rightarrow> real" where
  "keystroke_delay r = dbl_val (dbl_add (Math_floor (dbl_mul r (Dbl 100 0))) (Dbl 50 0))"

definition post_type_delay :: "dbl \<Rightarrow> real" where
  "post_type_delay r = dbl_val (dbl_add (Dbl 800 0) (dbl_mul r (Dbl 500 0)))"

text \<open>
  Lines 257--261, the part of an iteration after its sleep: write
  \<^verbatim>\<open>currentVal + char\<close> with the native setter, dispatch a bubbling input event.
\<close>

definition write_char :: "string \<Rightarrow> char \<Rightarrow> element \<Rightarrow> element" where
  "write_char currentVal ch e =
     dispatchEvent (Event ''input'' True) (native_set (currentVal @ [ch]) e)"

text \<open>
  The loop of \<^verbatim>\<open>typeStringSimulate\<close>, run with nothing else touching the element
  while it sleeps. \<open>rnd i\<close> is what \<^verbatim>\<open>Math.random()\<close> returns in iteration \<open>i\<close>;
  the second component collects the arguments of \<^verbatim>\<open>sleep\<close>.
  \<^verbatim>\<open>
  for (let i = 0; i < text.length; i++) {
      const char = text[i];
      const currentVal = element.value;
      const delay = Math.floor(Math.random() * 100) + 50;
      await sleep(delay);
      const nextVal = currentVal + char;
      nativeInputValueSetter.call(element, nextVal);
      element.dispatchEvent(new Event('input', { bubbles: true }));
  }
  \<close>
\<close>

function type_loop ::
  "(nat \<Rightarrow> dbl) \<Rightarrow> string \<Rightarrow> nat \<Rightarrow> element \<times> real list \<Rightarrow> element \<times> real list" where
  "type_loop rnd text i (e, sleeps) =
     (if i < length text then
        (let ch = text ! i;
             currentVal = elem_value e;
             delay = keystroke_delay (rnd i)
         in type_loop rnd text (Suc i) (write_char currentVal ch e, sleeps @ [delay]))
      else (e, sleeps))"
  by pat_completeness auto
termination
  by (relation "measure (\<lambda>(rnd, text, i, acc). length text - i)") auto

text \<open>After the loop, line 266 dispatches a bubbling change event.\<close>

definition typeStringSimulate ::
  "(nat \<Rightarrow> dbl) \<Rightarrow> element \<Rightarrow> string \<Rightarrow> element \<times> real list" where
  "typeStringSimulate rnd element text =
     (case type_loop rnd text 0 (element, []) of
        (e, sleeps) \<Rightarrow> (dispatchEvent (Event ''change'' True) e, sleeps))"

text \<open>How many bubbling events of one type an element has received.\<close>

definition count_events :: "string \<Rightarrow> element \<Rightarrow> nat" where
  "count_events ty e =
     length (filter (\<lambda>ev. case ev of Event t b \<Rightarrow> t = ty \<and> b) (map fst (dispatched e)))"

section \<open>The login state machine (lines 184--241)\<close>

datatype login_msg =
    LoginPageDetected
  | AccountListFound
  | PasswordNotSet
  | PreparingInput
  | InputDone

datatype login_effect =
    LConsole level login_msg
  | ClickAccountItem
  | FocusPassword
  | Sleep real
  | ClickNext bool
  | SetTimeoutUnlock real

text \<open>
  What one run of \<^verbatim>\<open>tryAttemptLogin\<close> finds: whether each
  \<^verbatim>\<open>querySelector\<close> returns an element, whether the password input's
  \<^verbatim>\<open>offsetParent\<close> is not null, and what
  \<^verbatim>\<open>GM_getValue("GOOGLE_PASSWORD", "")\<close> returns.
\<close>

record tick_input =
  accountItem :: bool
  passwordInput :: bool
  nextButton :: bool
  offsetParent :: bool
  stored_password :: string

text \<open>
  What a suspended run finds when its sleep ends: the next value of
  \<^verbatim>\<open>Math.random()\<close>, and whether \<^verbatim>\<open>nextButton.querySelector('button')\<close>
  returns an element.
\<close>

record wake_input =
  math_random :: dbl
  nested_button :: bool

text \<open>
  Where a run of \<^verbatim>\<open>tryAttemptLogin\<close> is suspended: in \<^verbatim>\<open>sleep(500)\<close>
  (line 224), in the sleep of iteration \<open>i\<close> of the typing loop holding the
  \<^verbatim>\<open>currentVal\<close> it read (line 254), or in the sleep after typing (line 231).
\<close>

datatype pc = AfterFocus | InKeystroke nat string | AfterTyping

record task =
  task_pc :: pc
  savedPassword :: string

text \<open>
  One page lifetime on the identity provider's domain: the lock, the suspended runs,
  the pending unlock timers of line 238, the password input, whether the interval of
  line 187 is running, and the effects so far.
\<close>

record page =
  isTyping :: bool
  tasks :: "task list"
  unlock_timers :: nat
  passwd :: element
  poll :: bool
  trace :: "login_effect list"

definition handleAccountsGoogle :: "element \<Rightarrow> page" where
  "handleAccountsGoogle e =
     \<lparr> isTyping = False, tasks = [], unlock_timers = 0, passwd = e, poll = True,
       trace = [LConsole LogLevel LoginPageDetected] \<rparr>"

text \<open>
  \<^verbatim>\<open>tryAttemptLogin\<close> from its call to its first \<^verbatim>\<open>await\<close> (lines 194--224),
  in the source's order of tests.
\<close>

definition tryAttemptLogin :: "tick_input \<Rightarrow> page \<Rightarrow> page" where
  "tryAttemptLogin p s =
     (if isTyping s then s
      else if accountItem p then
        s\<lparr>trace := trace s @ [LConsole LogLevel AccountListFound, ClickAccountItem]\<rparr>
      else if passwordInput p \<and> nextButton p then
        (if offsetParent p \<and> elem_value (passwd s) = [] then
           (if stored_password p = [] then
              s\<lparr>trace := trace s @ [LConsole WarnLevel PasswordNotSet]\<rparr>
            else
              s\<lparr>isTyping := True,
                tasks := tasks s @ [\<lparr>task_pc = AfterFocus, savedPassword = stored_password p\<rparr>],
                trace := trace s @ [LConsole LogLevel PreparingInput, FocusPassword, Sleep 500]\<rparr>)
         else s)
      else s)"

text \<open>
  The head of the typing loop for run \<open>k\<close> at index \<open>i\<close>: either iteration \<open>i\<close>
  reads \<^verbatim>\<open>element.value\<close> and sleeps, or the loop is over, the change event is
  dispatched, and lines 230--231 log and sleep.
\<close>

definition loop_head :: "nat \<Rightarrow> nat \<Rightarrow> wake_input \<Rightarrow> page \<Rightarrow> page" where
  "loop_head k i w s =
     (let t = tasks s ! k in
      if i < length (savedPassword t) then
        s\<lparr>tasks := (tasks s)[k := t\<lparr>task_pc := InKeystroke i (elem_value (passwd s))\<rparr>],
          trace := trace s @ [Sleep (keystroke_delay (math_random w))]\<rparr>
      else
        s\<lparr>passwd := dispatchEvent (Event ''change'' True) (passwd s),
          tasks := (tasks s)[k := t\<lparr>task_pc := AfterTyping\<rparr>],
          trace := trace s @ [LConsole LogLevel InputDone, Sleep (post_type_delay (math_random w))]\<rparr>)"

text \<open>
  Run \<open>k\<close> continues after its sleep, up to its next \<^verbatim>\<open>await\<close> or its end
  (lines 234--238: the click, then the timer that unlocks after 5000).
\<close>

definition resume :: "nat \<Rightarrow> wake_input \<Rightarrow> page \<Rightarrow> page" where
  "resume k w s =
     (let t = tasks s ! k in
      case task_pc t of
        AfterFocus \<Rightarrow> loop_head k 0 w s
      | InKeystroke i currentVal \<Rightarrow>
          loop_head k (Suc i) w
            (s\<lparr>passwd := write_char currentVal (savedPassword t ! i) (passwd s)\<rparr>)
      | AfterTyping \<Rightarrow>
          s\<lparr>tasks := take k (tasks s) @ drop (Suc k) (tasks s),
            unlock_timers := Suc (unlock_timers s),
            trace := trace s @ [ClickNext (nested_button w), SetTimeoutUnlock 5000]\<rparr>)"

text \<open>
  What the event loop can run next on the page: a tick of the interval, the end of
  the sleep of suspended run \<open>k\<close>, an unlock timer, or the page itself assigning to
  the password input's value. Any order of events is allowed, which covers every order
  the timers can produce.
\<close>

datatype event =
    Tick tick_input
  | Wake nat wake_input
  | UnlockFires
  | PageSetsValue string

fun step :: "event \<Rightarrow> page \<Rightarrow> page" where
  "step (Tick p) s = (if poll s then tryAttemptLogin p s else s)"
| "step (Wake k w) s = (if k < length (tasks s) then resume k w s else s)"
| "step UnlockFires s =
     (if 0 < unlock_timers s
      then s\<lparr>isTyping := False, unlock_timers := unlock_timers s - 1\<rparr> else s)"
| "step (PageSetsValue v) s = s\<lparr>passwd := native_set v (passwd s)\<rparr>"

fun run :: "event list \<Rightarrow> page \<Rightarrow> page" where
  "run [] s = s"
| "run (ev # evs) s = run evs (step ev s)"

text \<open>
  The lock's invariant: while the lock is held there is exactly one suspended run or
  one pending unlock timer, and while it is free there is neither.
\<close>

definition lock_inv :: "page \<Rightarrow> bool" where
  "lock_inv s =
     (if isTyping s then length (tasks s) + unlock_timers s = 1
      else tasks s = [] \<and> unlock_timers s = 0)"

section \<open>The interstitial sign-in page (lines 164--180)\<close>

datatype auth_msg = AuthPageDetected | ButtonFound

datatype auth_effect =
    AConsole auth_msg
  | ClearInterval
  | ClickButton nat

text \<open>
  What one tick finds: the element (by its identity) that each selector returns,
  \<^verbatim>\<open>form button[type="submit"]\<close> first and \<^verbatim>\<open>button.button\<close> second.
\<close>

record auth_probe =
  primary :: "nat option"
  secondary :: "nat option"

record auth_page =
  checkBtn :: bool
  auth_trace :: "auth_effect list"

text \<open>\<^verbatim>\<open>a || b\<close> on two results of \<^verbatim>\<open>querySelector\<close>.\<close>

definition js_or :: "'a option \<Rightarrow> 'a option \<Rightarrow> 'a option" where
  "js_or a b = (case a of Some x \<Rightarrow> Some x | None \<Rightarrow> b)"

definition handleLabsAuthPage :: auth_page where
  "handleLabsAuthPage = \<lparr> checkBtn = True, auth_trace = [AConsole AuthPageDetected] \<rparr>"

text \<open>
  The interval's callback. A cleared interval runs its callback no more, so a tick
  after \<^verbatim>\<open>clearInterval(checkBtn)\<close> changes nothing.
\<close>

definition check_tick :: "auth_probe \<Rightarrow> auth_page \<Rightarrow> auth_page" where
  "check_tick p s =
     (if checkBtn s then
        (case js_or (primary p) (secondary p) of
           None \<Rightarrow> s
         | Some btn \<Rightarrow>
             s\<lparr>checkBtn := False,
               auth_trace := auth_trace s @ [AConsole ButtonFound, ClearInterval, ClickButton btn]\<rparr>)
      else s)"

fun check_ticks :: "auth_probe list \<Rightarrow> auth_page \<Rightarrow> auth_page" where
  "check_ticks [] s = s"
| "check_ticks (p # ps) s = check_ticks ps (check_tick p s)"

text \<open>The elements clicked, in order.\<close>

fun clicks :: "auth_effect list \<Rightarrow> nat list" where
  "clicks [] = []"
| "clicks (ClickButton b # es) = b # clicks es"
| "clicks (e # es) = clicks es"

text \<open>The double quote, for writing a JSON text as a string.\<close>

definition dq :: char where
  "dq = CHR 0x22"

section \<open>Properties of the route dispatch\<close>

lemma includes_sublist: "str_includes s t = sublist t s"
  by (induction s) (auto simp: sublist_Cons_right)

lemma includes_self: "str_includes s s"
  by (simp add: includes_sublist)

text \<open>
  Claim C8. The dispatch is a function of hostname and path in which the first rule
  that matches wins: on a host containing \<^verbatim>\<open>labs.google\<close> a path containing
  \<^verbatim>\<open>/auth/signin\<close> goes to the interstitial handler and every other path to the
  business-page handler; a host that fails that test and contains
  \<^verbatim>\<open>accounts.google.com\<close> goes to the login state machine; anything else calls
  no handler. At most one handler is called, and on the hostnames the script's
  \<^verbatim>\<open>@match\<close> lines admit exactly one.
\<close>

theorem route_first_match_wins:
  "(sublist ''labs.google'' h \<and> sublist ''/auth/signin'' p \<longrightarrow> route h p = [HandleLabsAuthPage]) \<and>
   (sublist ''labs.google'' h \<and> \<not> sublist ''/auth/signin'' p \<longrightarrow> route h p = [HandleLabsGoogle]) \<and>
   (\<not> sublist ''labs.google'' h \<and> sublist ''accounts.google.com'' h \<longrightarrow>
      route h p = [HandleAccountsGoogle]) \<and>
   (\<not> sublist ''labs.google'' h \<and> \<not> sublist ''accounts.google.com'' h \<longrightarrow> route h p = []) \<and>
   length (route h p) \<le> 1 \<and>
   (matched_host h \<longrightarrow> length (route h p) = 1)"
  by (auto simp: route_def matched_host_def includes_sublist [symmetric])

theorem route_first_match_wins_witness:
  "route ''labs.google'' ''/fx/api/auth/signin'' = [HandleLabsAuthPage] \<and>
   route ''labs.google'' ''/fx/tools/flow'' = [HandleLabsGoogle] \<and>
   route ''accounts.google.com'' ''/v3/signin/challenge/pwd'' = [HandleAccountsGoogle] \<and>
   route ''example.org'' ''/auth/signin'' = [] \<and>
   matched_host ''labs.google'' \<and>
   length (route ''labs.google'' ''/fx/tools/flow'') = 1"
  using route_first_match_wins [of "''labs.google''" "''/fx/api/auth/signin''"]
        route_first_match_wins [of "''labs.google''" "''/fx/tools/flow''"]
        route_first_match_wins [of "''accounts.google.com''" "''/v3/signin/challenge/pwd''"]
        route_first_match_wins [of "''example.org''" "''/auth/signin''"]
  by (simp add: includes_sublist [symmetric] matched_host_def)

text \<open>
  Claim C9, as stated, fails for a hostname that contains both markers: the test for
  \<^verbatim>\<open>labs.google\<close> comes first, so such a host runs a target-application handler
  and not the login state machine.
\<close>

theorem route_accounts_substring_counterexample:
  "sublist ''accounts.google.com'' ''accounts.google.com.labs.google'' \<and>
   route ''accounts.google.com.labs.google'' ''/'' = [HandleLabsGoogle] \<and>
   HandleAccountsGoogle \<notin> set (route ''accounts.google.com.labs.google'' ''/'')"
  by (simp add: includes_sublist [symmetric] route_def)

text \<open>
  Claim C9, amended. The tests are substring tests: every hostname that contains
  \<^verbatim>\<open>labs.google\<close> anywhere runs a target-application handler (the interstitial
  one when the path contains \<^verbatim>\<open>/auth/signin\<close>, the business-page one otherwise),
  and every hostname that contains \<^verbatim>\<open>accounts.google.com\<close> and does not contain
  \<^verbatim>\<open>labs.google\<close> runs the login state machine.
\<close>

theorem route_tests_substrings:
  "(sublist ''labs.google'' h \<longrightarrow>
      route h p = [if sublist ''/auth/signin'' p then HandleLabsAuthPage else HandleLabsGoogle]) \<and>
   (sublist ''accounts.google.com'' h \<and> \<not> sublist ''labs.google'' h \<longrightarrow>
      route h p = [HandleAccountsGoogle])"
  by (simp add: route_def includes_sublist [symmetric])

theorem route_tests_substrings_witness:
  "sublist ''labs.google'' ''labs.google.example.com'' \<and>
   route ''labs.google.example.com'' ''/fx'' = [HandleLabsGoogle] \<and>
   route ''labs.google.example.com'' ''/api/auth/signin'' = [HandleLabsAuthPage] \<and>
   sublist ''accounts.google.com'' ''accounts.google.com.example.com'' \<and>
   route ''accounts.google.com.example.com'' ''/'' = [HandleAccountsGoogle]"
  using route_tests_substrings [of "''labs.google.example.com''" "''/fx''"]
        route_tests_substrings [of "''labs.google.example.com''" "''/api/auth/signin''"]
        route_tests_substrings [of "''accounts.google.com.example.com''" "''/''"]
  by (simp add: includes_sublist [symmetric])

section \<open>Properties of the cookie harvest and the token sync\<close>

text \<open>
  Claim C3. For every answer of the cookie store to the query for the fixed name:
  with no error and at least one cookie, \<^verbatim>\<open>sendTokenToServer\<close> is called exactly
  once, with the value of the first cookie, and nothing else happens; with no error
  and no cookie (an empty or a missing list), it is not called and the condition is
  logged with \<^verbatim>\<open>console.log\<close>, not as an error; with an error, the error is
  logged with \<^verbatim>\<open>console.error\<close> and \<^verbatim>\<open>sendTokenToServer\<close> is not called.
  An error is reported when the callback's second argument is truthy.
\<close>

theorem syncToken_sends_first_match_once:
  "(\<not> error_reported err \<and> cookies = Some (c # cs) \<longrightarrow>
      syncToken cookies err = [SendTokenToServer (cookie_value c)] \<and>
      send_calls (syncToken cookies err) = [cookie_value c]) \<and>
   (\<not> error_reported err \<and> (cookies = Some [] \<or> cookies = None) \<longrightarrow>
      syncToken cookies err = [Console LogLevel NoSessionToken] \<and>
      send_calls (syncToken cookies err) = [] \<and>
      errors_logged (syncToken cookies err) = []) \<and>
   (err = Some e \<and> error_reported err \<longrightarrow>
      syncToken cookies err = [Console ErrorLevel (CookieReadFailed e)] \<and>
      send_calls (syncToken cookies err) = [])"
  by auto

theorem syncToken_sends_first_match_once_witness:
  "send_calls (syncToken
      (Some [\<lparr>cookie_name = ''__Secure-next-auth.session-token'', cookie_value = ''tok_XYZ''\<rparr>,
             \<lparr>cookie_name = ''__Secure-next-auth.session-token'', cookie_value = ''tok_2''\<rparr>])
      None) = [''tok_XYZ''] \<and>
   syncToken (Some []) None = [Console LogLevel NoSessionToken] \<and>
   send_calls (syncToken (Some []) None) = [] \<and>
   syncToken (Some [\<lparr>cookie_name = ''n'', cookie_value = ''tok_XYZ''\<rparr>]) (Some ''not supported'') =
     [Console ErrorLevel (CookieReadFailed ''not supported'')] \<and>
   send_calls
     (syncToken (Some [\<lparr>cookie_name = ''n'', cookie_value = ''tok_XYZ''\<rparr>]) (Some ''not supported'')) = []"
  using syncToken_sends_first_match_once
          [of None "Some [\<lparr>cookie_name = ''__Secure-next-auth.session-token'', cookie_value = ''tok_XYZ''\<rparr>,
                          \<lparr>cookie_name = ''__Secure-next-auth.session-token'', cookie_value = ''tok_2''\<rparr>]"
              "\<lparr>cookie_name = ''__Secure-next-auth.session-token'', cookie_value = ''tok_XYZ''\<rparr>"
              "[\<lparr>cookie_name = ''__Secure-next-auth.session-token'', cookie_value = ''tok_2''\<rparr>]"]
        syncToken_sends_first_match_once [of None "Some []"]
        syncToken_sends_first_match_once
          [of "Some ''not supported''" "Some [\<lparr>cookie_name = ''n'', cookie_value = ''tok_XYZ''\<rparr>]"
              _ _ "''not supported''"]
  by simp

lemma posts_1_2: "posts (sendTokenToServer_1_2 st out) = [sync_post st]"
  by (auto simp: sendTokenToServer_1_2_def onload_1_2_def onerror_1_2_def try_body_1_2_def
      split: xhr_outcome.splits sum.splits option.splits)

lemma posts_1_5: "posts (sendTokenToServer_1_5 st out) = [sync_post st]"
  by (auto simp: sendTokenToServer_1_5_def onload_1_5_def try_body_1_5_def
      split: xhr_outcome.splits sum.splits option.splits)

lemma errors_logged_1_5: "errors_logged (sendTokenToServer_1_5 st out) = []"
  by (auto simp: sendTokenToServer_1_5_def onload_1_5_def try_body_1_5_def
      split: xhr_outcome.splits sum.splits option.splits)

text \<open>
  Claim C4, as stated, fails on version 1.5 (lines 302--323): a 200 response whose
  body says \<^verbatim>\<open>{"success":false}\<close>, a 200 response whose body does not parse, a
  500 response and a transport failure each leave no error in the log.
\<close>

theorem sendTokenToServer_1_5_silent_counterexample:
  "errors_logged (sendTokenToServer_1_5 ''tok''
      (Loaded \<lparr>status = 200, responseText = ''{'' @ dq # ''success'' @ dq # '':false}'',
               parsed = Some (JObj [(''success'', JBool False)])\<rparr>)) = [] \<and>
   errors_logged (sendTokenToServer_1_5 ''tok''
      (Loaded \<lparr>status = 200, responseText = ''<html>'', parsed = None\<rparr>)) = [] \<and>
   errors_logged (sendTokenToServer_1_5 ''tok''
      (Loaded \<lparr>status = 500, responseText = ''Internal Server Error'', parsed = None\<rparr>)) = [] \<and>
   errors_logged (sendTokenToServer_1_5 ''tok'' (NetworkFailed ''timeout'')) = []"
  by (simp add: sendTokenToServer_1_5_def onload_1_5_def try_body_1_5_def)

text \<open>
  Claim C4, amended. In both versions every sync attempt posts exactly once,
  whatever its outcome: no handler posts again. In version 1.2 (lines 31--62) a 200
  response whose parsed body has a falsy \<^verbatim>\<open>success\<close>, a 200 response whose body
  does not parse, a response with any other status and a transport failure each log
  exactly one error. In version 1.5 (lines 302--323) no outcome logs an error.
\<close>

theorem sendTokenToServer_one_post_and_errors:
  "(status r = 200 \<and> parsed r = Some d \<and> get_prop (Some d) ''success'' = Inr ok \<and> \<not> truthy ok \<longrightarrow>
      errors_logged (sendTokenToServer_1_2 st (Loaded r)) = [ServerReturnedError d]) \<and>
   (status r = 200 \<and> parsed r = None \<longrightarrow>
      errors_logged (sendTokenToServer_1_2 st (Loaded r)) = [ParseFailed SyntaxError]) \<and>
   (status r \<noteq> 200 \<longrightarrow>
      errors_logged (sendTokenToServer_1_2 st (Loaded r)) =
        [HttpFailed (status r) (responseText r)]) \<and>
   errors_logged (sendTokenToServer_1_2 st (NetworkFailed e)) = [NetworkError e] \<and>
   posts (sendTokenToServer_1_2 st out) = [sync_post st] \<and>
   posts (sendTokenToServer_1_5 st out) = [sync_post st] \<and>
   errors_logged (sendTokenToServer_1_5 st out) = []"
proof -
  have "errors_logged (sendTokenToServer_1_2 st (Loaded r)) = [ServerReturnedError d]"
    if "status r = 200" "parsed r = Some d" "get_prop (Some d) ''success'' = Inr ok" "\<not> truthy ok"
    using that by (simp add: sendTokenToServer_1_2_def onload_1_2_def try_body_1_2_def)
  moreover have "errors_logged (sendTokenToServer_1_2 st (Loaded r)) = [ParseFailed SyntaxError]"
    if "status r = 200" "parsed r = None"
    using that by (simp add: sendTokenToServer_1_2_def onload_1_2_def try_body_1_2_def)
  moreover have "errors_logged (sendTokenToServer_1_2 st (Loaded r)) =
      [HttpFailed (status r) (responseText r)]" if "status r \<noteq> 200"
    using that by (simp add: sendTokenToServer_1_2_def onload_1_2_def)
  moreover have "errors_logged (sendTokenToServer_1_2 st (NetworkFailed e)) = [NetworkError e]"
    by (simp add: sendTokenToServer_1_2_def onerror_1_2_def)
  ultimately show ?thesis
    by (simp add: posts_1_2 posts_1_5 errors_logged_1_5)
qed

theorem sendTokenToServer_one_post_and_errors_witness:
  "errors_logged (sendTokenToServer_1_2 ''tok''
      (Loaded \<lparr>status = 200, responseText = ''{'' @ dq # ''success'' @ dq # '':false}'',
               parsed = Some (JObj [(''success'', JBool False)])\<rparr>)) =
     [ServerReturnedError (JObj [(''success'', JBool False)])] \<and>
   errors_logged (sendTokenToServer_1_2 ''tok''
      (Loaded \<lparr>status = 200, responseText = ''<html>'', parsed = None\<rparr>)) =
     [ParseFailed SyntaxError] \<and>
   errors_logged (sendTokenToServer_1_2 ''tok''
      (Loaded \<lparr>status = 500, responseText = ''Internal Server Error'', parsed = None\<rparr>)) =
     [HttpFailed 500 ''Internal Server Error''] \<and>
   posts (sendTokenToServer_1_2 ''tok'' (NetworkFailed ''timeout'')) = [sync_post ''tok''] \<and>
   posts (sendTokenToServer_1_5 ''tok'' (NetworkFailed ''timeout'')) = [sync_post ''tok'']"
  using sendTokenToServer_one_post_and_errors
          [of "\<lparr>status = 200, responseText = ''{'' @ dq # ''success'' @ dq # '':false}'',
                parsed = Some (JObj [(''success'', JBool False)])\<rparr>"
              "JObj [(''success'', JBool False)]" "Some (JBool False)" "''tok''" "''timeout''"
              "NetworkFailed ''timeout''"]
        sendTokenToServer_one_post_and_errors
          [of "\<lparr>status = 200, responseText = ''<html>'', parsed = None\<rparr>" _ _ "''tok''"]
        sendTokenToServer_one_post_and_errors
          [of "\<lparr>status = 500, responseText = ''Internal Server Error'', parsed = None\<rparr>" _ _ "''tok''"]
  by simp

section \<open>Properties of the numbers\<close>

lemma bitlen_numeral: "bitlen (numeral k) = bitlen (numeral k div 2) + 1"
  by (subst compute_bitlen) simp

lemma bitlen_one: "bitlen 1 = 1"
  by (subst compute_bitlen) simp


lemma dbl_val_powr: "dbl_val (Dbl m e) = real m * 2 powr real_of_int e"
  by (simp add: powr_real_of_int field_simps)

lemma dbl_val_nonneg: "0 \<le> dbl_val d"
  by (cases d) simp

lemma round_step_close:
  fixes n d :: nat
  assumes "0 < d"
  shows "\<bar>real (if 2 * (n mod d) < d \<or> (2 * (n mod d) = d \<and> even (n div d))
                then n div d else n div d + 1) * real d - real n\<bar> \<le> real d / 2"
proof -
  have n: "real n = real (n div d) * real d + real (n mod d)"
    by (metis div_mult_mod_eq of_nat_add of_nat_mult)
  have r: "real (n mod d) < real d"
    using assms by simp
  show ?thesis
  proof (cases "2 * (n mod d) < d \<or> (2 * (n mod d) = d \<and> even (n div d))")
    case True
    then have "2 * real (n mod d) \<le> real d"
      by (metis less_or_eq_imp_le of_nat_le_iff of_nat_mult of_nat_numeral)
    with True show ?thesis
      by (simp add: n)
  next
    case False
    then have "d \<le> 2 * (n mod d)"
      by auto
    then have "real d \<le> 2 * real (n mod d)"
      by (metis of_nat_le_iff of_nat_mult of_nat_numeral)
    with False r show ?thesis
      by (simp add: n algebra_simps)
  qed
qed

lemma round_even_close:
  assumes "real n * 2 powr real_of_int e < 128"
  shows "\<bar>dbl_val (round_even n e) - real n * 2 powr real_of_int e\<bar> \<le> 2 powr (- 47)"
proof -
  define s where "s = max (bitlen (int n) - 53) (- 1074 - e)"
  show ?thesis
  proof (cases "s \<le> 0")
    case True
    then have "round_even n e = Dbl n e"
      by (simp add: round_even_def s_def [symmetric])
    then show ?thesis
      by (simp add: dbl_val_powr del: dbl_val.simps)
  next
    case False
    define d :: nat where "d = 2 ^ nat s"
    define q' where "q' = (if 2 * (n mod d) < d \<or> (2 * (n mod d) = d \<and> even (n div d))
                then n div d else n div d + 1)"
    have re: "round_even n e = Dbl q' (e + s)"
      using False by (simp add: round_even_def s_def [symmetric] Let_def d_def q'_def)
    have dpos: "0 < d" by (simp add: d_def)
    have dp: "real d = 2 powr real_of_int s"
      using False by (simp add: d_def powr_real_of_int)
    have val: "dbl_val (round_even n e) = real q' * real d * 2 powr real_of_int e"
      by (simp add: re dbl_val_powr dp powr_add del: dbl_val.simps)
    have "\<bar>real q' * real d - real n\<bar> \<le> real d / 2"
      unfolding q'_def using round_step_close [OF dpos] .
    then have "\<bar>real q' * real d - real n\<bar> * 2 powr real_of_int e \<le> real d / 2 * 2 powr real_of_int e"
      by (intro mult_right_mono) simp_all
    moreover have "\<bar>dbl_val (round_even n e) - real n * 2 powr real_of_int e\<bar> =
        \<bar>real q' * real d - real n\<bar> * 2 powr real_of_int e"
    proof -
      have "dbl_val (round_even n e) - real n * 2 powr real_of_int e =
          (real q' * real d - real n) * 2 powr real_of_int e"
        by (simp add: val algebra_simps)
      then show ?thesis
        by (simp only: abs_mult) simp
    qed
    moreover have "real d / 2 * 2 powr real_of_int e = 2 powr real_of_int (e + s) / 2"
      by (simp add: dp powr_add)
    moreover have "e + s \<le> - 46"
    proof (cases "n = 0")
      case True
      with False show ?thesis by (simp add: s_def)
    next
      case n: False
      then have "2 ^ nat (bitlen (int n) - 1) \<le> int n"
        using bitlen_bounds [of "int n"] by simp
      then have "(2::real) ^ nat (bitlen (int n) - 1) \<le> real n"
        by (metis of_int_le_iff of_int_numeral of_int_of_nat_eq of_int_power)
      moreover have "1 \<le> bitlen (int n)"
        using n by (simp add: bitlen_ge_iff_power)
      ultimately have "2 powr real_of_int (bitlen (int n) - 1) \<le> real n"
        by (simp add: powr_real_of_int del: of_int_diff)
      then have "2 powr real_of_int (bitlen (int n) - 1) * 2 powr real_of_int e < 128"
        using assms by (smt (verit) mult_right_mono powr_ge_zero)
      then have a: "2 powr real_of_int (bitlen (int n) - 1 + e) < 128"
        by (simp add: powr_add)
      have "real_of_int (bitlen (int n) - 1 + e) < 7"
      proof (rule powr_less_cancel [of 2])
        show "2 powr real_of_int (bitlen (int n) - 1 + e) < 2 powr 7"
          using a by simp
        show "(1::real) < 2"
          by simp
      qed
      then have "bitlen (int n) + e \<le> 7"
        by linarith
      with False show ?thesis
        by (simp add: s_def max_def split: if_splits)
    qed
    then have "2 powr real_of_int (e + s) \<le> 2 powr real_of_int (- 46)"
      by (intro powr_mono) simp_all
    then have "2 powr real_of_int (e + s) \<le> 2 powr (- 46)"
      by simp
    moreover have "(2::real) powr (- 46) / 2 = 2 powr (- 47)"
      by (simp add: powr_minus)
    ultimately show ?thesis
      by linarith
  qed
qed

lemma below_one_gap:
  assumes "is_dbl (Dbl m e)" and "dbl_val (Dbl m e) < 1"
  shows "dbl_val (Dbl m e) \<le> 1 - 2 powr (- 53)"
proof -
  have m: "m < 2 ^ 53"
    using assms(1) by simp
  have p: "(2::real) powr (- 53) = 1 / 2 ^ 53"
    by (simp add: powr_minus_divide)
  consider "0 \<le> e" | "e < 0" "nat (- e) \<le> 53" | "e < 0" "53 < nat (- e)"
    by linarith
  then show ?thesis
  proof cases
    case 1
    have "real (m * 2 ^ nat e) < real 1"
      using assms(2) 1 by simp
    then have "m * 2 ^ nat e < 1"
      by (simp only: of_nat_less_iff)
    then have "m = 0"
      by simp
    then have "dbl_val (Dbl m e) = 0"
      by simp
    then show ?thesis
      unfolding p by simp
  next
    case 2
    define k where "k = nat (- e)"
    define P :: real where "P = 2 ^ k"
    have Ppos: "0 < P"
      by (simp add: P_def)
    have v: "dbl_val (Dbl m e) = real m / P"
      using 2 by (simp add: k_def P_def)
    have "real m / P < 1"
      using assms(2) unfolding v .
    then have "real m < P"
      using Ppos by (simp add: divide_less_eq)
    then have "real m < real (2 ^ k)"
      by (simp add: P_def)
    then have "m < 2 ^ k"
      by (simp only: of_nat_less_iff)
    then have "Suc m \<le> 2 ^ k"
      by simp
    then have "real (Suc m) \<le> real (2 ^ k)"
      by (simp only: of_nat_le_iff)
    then have "real m + 1 \<le> P"
      by (simp add: P_def)
    then have "(real m + 1) / P \<le> 1"
      using Ppos by (simp add: divide_le_eq)
    then have a: "real m / P + 1 / P \<le> 1"
      by (simp add: add_divide_distrib)
    have "P \<le> 2 ^ 53"
      unfolding P_def using 2(2) by (intro power_increasing) (simp_all add: k_def)
    then have "1 / (2::real) ^ 53 \<le> 1 / P"
      using Ppos by (intro divide_left_mono) simp_all
    with a show ?thesis
      unfolding v p by linarith
  next
    case 3
    define k where "k = nat (- e)"
    define P :: real where "P = 2 ^ k"
    have Ppos: "0 < P"
      by (simp add: P_def)
    have v: "dbl_val (Dbl m e) = real m / P"
      using 3 by (simp add: k_def P_def)
    have "(2::real) ^ 54 \<le> P"
      unfolding P_def using 3(2) by (intro power_increasing) (simp_all add: k_def)
    moreover have "real m < real (2 ^ 53)"
      using m by (simp only: of_nat_less_iff)
    then have "real m \<le> 2 ^ 53"
      by simp
    ultimately have "real m / P \<le> 2 ^ 53 / 2 ^ 54"
      by (intro frac_le) simp_all
    then have "real m / P \<le> 1 / 2"
      by simp
    moreover have "(1::real) / 2 \<le> 1 - 1 / 2 ^ 53"
      by simp
    ultimately show ?thesis
      unfolding v p by linarith
  qed
qed

lemma dbl_mul_100_below:
  assumes "is_dbl r" and "dbl_val r < 1"
  shows "dbl_val (dbl_mul r (Dbl 100 0)) < 100"
proof -
  obtain m e where r: "r = Dbl m e"
    by (cases r)
  have g: "dbl_val (Dbl m e) \<le> 1 - 2 powr (- 53)"
    using assms below_one_gap unfolding r by blast
  have x: "real (m * 100) * 2 powr real_of_int (e + 0) = 100 * dbl_val (Dbl m e)"
    by (simp add: dbl_val_powr del: dbl_val.simps)
  have p: "(2::real) powr (- 53) = 1 / 2 ^ 53" "(2::real) powr (- 47) = 1 / 2 ^ 47"
    by (simp_all add: powr_minus_divide)
  have "real (m * 100) * 2 powr real_of_int (e + 0) < 128"
    unfolding x using g p by simp
  from round_even_close [OF this]
  have "dbl_val (dbl_mul r (Dbl 100 0)) \<le> 100 * dbl_val (Dbl m e) + 2 powr (- 47)"
    unfolding x r by simp
  with g show ?thesis
    unfolding p by simp
qed

lemma Math_floor_val: "dbl_val (Math_floor d) = of_int \<lfloor>dbl_val d\<rfloor>"
proof (cases d)
  case (Dbl m e)
  show ?thesis
  proof (cases "0 \<le> e")
    case True
    have "real m * 2 ^ nat e = of_int (int (m * 2 ^ nat e))"
      by simp
    then show ?thesis
      using True unfolding Dbl by (simp del: of_nat_mult of_nat_power)
  next
    case False
    have "\<lfloor>real m / real (2 ^ nat (- e))\<rfloor> = int (m div 2 ^ nat (- e))"
      by (rule floor_divide_of_nat_eq)
    then show ?thesis
      using False unfolding Dbl by simp
  qed
qed

lemma Math_floor_shape: "\<exists>k e. Math_floor d = Dbl k e \<and> 0 \<le> e"
  by (cases d) auto

lemma dbl_add_50_exact:
  assumes "0 \<le> e" and "dbl_val (Dbl m e) \<le> 99"
  shows "dbl_val (dbl_add (Dbl m e) (Dbl 50 0)) = dbl_val (Dbl m e) + 50"
proof -
  define n where "n = m * 2 ^ nat e + 50"
  have "real (m * 2 ^ nat e) \<le> 99"
    using assms by simp
  then have "m * 2 ^ nat e \<le> 99"
    by (metis of_nat_le_iff of_nat_numeral)
  then have "n \<le> 149"
    by (simp add: n_def)
  then have "int n < 2 ^ nat 53"
    by simp
  then have "bitlen (int n) \<le> 53"
    by (simp add: bitlen_le_iff_power)
  then have "round_even n 0 = Dbl n 0"
    by (simp add: round_even_def)
  moreover have "dbl_add (Dbl m e) (Dbl 50 0) = round_even n 0"
    using assms(1) by (simp add: n_def min_def)
  ultimately show ?thesis
    using assms(1) by (simp add: n_def)
qed

lemma keystroke_delay_eq:
  assumes "is_dbl r" and "dbl_val r < 1"
  shows "keystroke_delay r = of_int \<lfloor>dbl_val (dbl_mul r (Dbl 100 0))\<rfloor> + 50"
    and "50 \<le> keystroke_delay r" and "keystroke_delay r \<le> 149"
proof -
  let ?x = "dbl_val (dbl_mul r (Dbl 100 0))"
  obtain k e where f: "Math_floor (dbl_mul r (Dbl 100 0)) = Dbl k e" and e: "0 \<le> e"
    using Math_floor_shape by blast
  have v: "dbl_val (Dbl k e) = of_int \<lfloor>?x\<rfloor>"
    using Math_floor_val [of "dbl_mul r (Dbl 100 0)"] unfolding f .
  have lo: "0 \<le> \<lfloor>?x\<rfloor>"
    using dbl_val_nonneg by simp
  have "?x < 100"
    using assms by (rule dbl_mul_100_below)
  then have hi: "\<lfloor>?x\<rfloor> \<le> 99"
    by (simp add: floor_le_iff)
  have "dbl_val (Dbl k e) \<le> 99"
    unfolding v using hi by simp
  from dbl_add_50_exact [OF e this]
  show eq: "keystroke_delay r = of_int \<lfloor>?x\<rfloor> + 50"
    unfolding keystroke_delay_def f v .
  show "50 \<le> keystroke_delay r" "keystroke_delay r \<le> 149"
    unfolding eq using lo hi by simp_all
qed

lemmas dbl_eval = keystroke_delay_def post_type_delay_def round_even_def Let_def
  bitlen_numeral bitlen_one

section \<open>Properties of the humanized input simulator\<close>

declare type_loop.simps [simp del]

lemma strip_newlines_absorb: "strip_newlines (strip_newlines a @ b) = strip_newlines (a @ b)"
  by (simp add: strip_newlines_def)

lemma strip_newlines_free: "newline_free v \<Longrightarrow> strip_newlines v = v"
  by (induction v) (auto simp: strip_newlines_def newline_free_def)

lemma write_char_sel:
  "elem_value (write_char v c e) = strip_newlines (v @ [c])"
  "dispatched (write_char v c e) = dispatched e @ [(Event ''input'' True, strip_newlines (v @ [c]))]"
  by (simp_all add: write_char_def native_set_def dispatchEvent_def)

lemma type_loop_general:
  "i \<le> length tx \<Longrightarrow>
   type_loop rnd tx i (e, sl) =
     (\<lparr>elem_value =
         (if i < length tx then strip_newlines (elem_value e @ drop i tx) else elem_value e),
       dispatched = dispatched e @
         map (\<lambda>k. (Event ''input'' True,
                   strip_newlines (elem_value e @ take (Suc k - i) (drop i tx)))) [i..<length tx]\<rparr>,
      sl @ map (\<lambda>j. keystroke_delay (rnd j)) [i..<length tx])"
proof (induction rnd tx i "(e, sl)" arbitrary: e sl rule: type_loop.induct)
  case (1 rnd tx i e sl)
  show ?case
  proof (cases "i < length tx")
    case True
    define e1 where "e1 = write_char (elem_value e) (tx ! i) e"
    define sl1 where "sl1 = sl @ [keystroke_delay (rnd i)]"
    have d: "drop i tx = tx ! i # drop (Suc i) tx"
      using True by (simp add: Cons_nth_drop_Suc)
    have u: "[i..<length tx] = i # [Suc i..<length tx]"
      using True by (simp add: upt_conv_Cons)
    have v1: "elem_value e1 = strip_newlines (elem_value e @ [tx ! i])"
      and d1: "dispatched e1 =
        dispatched e @ [(Event ''input'' True, strip_newlines (elem_value e @ [tx ! i]))]"
      by (simp_all add: e1_def write_char_sel)
    have m: "map (\<lambda>k. (Event ''input'' True,
          strip_newlines (elem_value e1 @ take (Suc k - Suc i) (drop (Suc i) tx)))) [Suc i..<length tx]
       = map (\<lambda>k. (Event ''input'' True,
          strip_newlines (elem_value e @ take (Suc k - i) (drop i tx)))) [Suc i..<length tx]"
      by (rule map_cong) (auto simp: v1 strip_newlines_absorb d Suc_diff_le)
    have fin: "(if Suc i < length tx then strip_newlines (elem_value e1 @ drop (Suc i) tx)
        else elem_value e1) = strip_newlines (elem_value e @ drop i tx)"
      by (simp add: v1 strip_newlines_absorb d)
    have h1: "map (\<lambda>k. (Event ''input'' True,
          strip_newlines (elem_value e @ take (Suc k - i) (drop i tx)))) [i..<length tx]
        = (Event ''input'' True, strip_newlines (elem_value e @ [tx ! i])) #
          map (\<lambda>k. (Event ''input'' True,
            strip_newlines (elem_value e @ take (Suc k - i) (drop i tx)))) [Suc i..<length tx]"
      by (subst u) (simp add: d)
    have h2: "map (\<lambda>j. keystroke_delay (rnd j)) [i..<length tx]
        = keystroke_delay (rnd i) # map (\<lambda>j. keystroke_delay (rnd j)) [Suc i..<length tx]"
      by (subst u) simp
    have "type_loop rnd tx i (e, sl) = type_loop rnd tx (Suc i) (e1, sl1)"
      using True by (subst type_loop.simps) (simp add: Let_def e1_def sl1_def)
    also have "\<dots> = (\<lparr>elem_value =
         (if Suc i < length tx then strip_newlines (elem_value e1 @ drop (Suc i) tx)
          else elem_value e1),
       dispatched = dispatched e1 @
         map (\<lambda>k. (Event ''input'' True,
           strip_newlines (elem_value e1 @ take (Suc k - Suc i) (drop (Suc i) tx)))) [Suc i..<length tx]\<rparr>,
      sl1 @ map (\<lambda>j. keystroke_delay (rnd j)) [Suc i..<length tx])"
      unfolding e1_def sl1_def using True by (intro "1.hyps"[OF True refl refl refl]) simp
    also have "\<dots> = (\<lparr>elem_value = strip_newlines (elem_value e @ drop i tx),
       dispatched = dispatched e @
         map (\<lambda>k. (Event ''input'' True,
           strip_newlines (elem_value e @ take (Suc k - i) (drop i tx)))) [i..<length tx]\<rparr>,
      sl @ map (\<lambda>j. keystroke_delay (rnd j)) [i..<length tx])"
      unfolding fin m h1 h2 d1 sl1_def by simp
    finally show ?thesis
      using True by simp
  next
    case False
    with "1.prems" have "i = length tx" by simp
    then show ?thesis by (subst type_loop.simps) simp
  qed
qed

lemma typeStringSimulate_eq:
  "typeStringSimulate rnd e tx =
     (\<lparr>elem_value = (if tx = [] then elem_value e else strip_newlines (elem_value e @ tx)),
       dispatched = dispatched e @
         map (\<lambda>k. (Event ''input'' True, strip_newlines (elem_value e @ take (Suc k) tx)))
           [0..<length tx] @
         [(Event ''change'' True,
           if tx = [] then elem_value e else strip_newlines (elem_value e @ tx))]\<rparr>,
      map (\<lambda>j. keystroke_delay (rnd j)) [0..<length tx])"
  by (simp add: typeStringSimulate_def type_loop_general dispatchEvent_def)

lemma sum_list_bounds:
  fixes xs :: "real list"
  assumes "\<forall>x \<in> set xs. a \<le> x \<and> x \<le> b"
  shows "a * real (length xs) \<le> sum_list xs \<and> sum_list xs \<le> b * real (length xs)"
  using assms by (induction xs) (auto simp: algebra_simps)

lemma count_events_eq:
  "count_events ''input'' (fst (typeStringSimulate rnd e tx)) = count_events ''input'' e + length tx"
  "count_events ''change'' (fst (typeStringSimulate rnd e tx)) = count_events ''change'' e + 1"
  by (simp_all add: typeStringSimulate_eq count_events_def comp_def)

lemma newline_free_append: "newline_free (a @ b) = (newline_free a \<and> newline_free b)"
  by (auto simp: newline_free_def)

lemma newline_free_take: "newline_free v \<Longrightarrow> newline_free (take k v)"
  by (auto simp: newline_free_def dest: in_set_takeD)

text \<open>
  Claim C2, as stated, fails for a typed string that holds a line feed: the value
  setter removes it, so the final value does not end with the typed string.
\<close>

theorem typeStringSimulate_line_feed_counterexample:
  "elem_value (fst (typeStringSimulate ((!) [Dbl 1 (- 1), Dbl 0 0, Dbl 3 (- 2)]) \<lparr>elem_value = [], dispatched = []\<rparr>
      [CHR ''a'', CHR 0x0A, CHR ''b''])) = ''ab'' \<and>
   \<not> suffix [CHR ''a'', CHR 0x0A, CHR ''b'']
      (elem_value (fst (typeStringSimulate ((!) [Dbl 1 (- 1), Dbl 0 0, Dbl 3 (- 2)]) \<lparr>elem_value = [], dispatched = []\<rparr>
        [CHR ''a'', CHR 0x0A, CHR ''b''])))"
proof -
  have v: "elem_value (fst (typeStringSimulate ((!) [Dbl 1 (- 1), Dbl 0 0, Dbl 3 (- 2)]) \<lparr>elem_value = [], dispatched = []\<rparr>
      [CHR ''a'', CHR 0x0A, CHR ''b''])) = ''ab''"
    by (simp add: typeStringSimulate_eq strip_newlines_def)
  have "\<not> suffix [CHR ''a'', CHR 0x0A, CHR ''b''] ''ab''"
    by (auto dest: suffix_length_le)
  with v show ?thesis
    by simp
qed

text \<open>
  Claim C2, amended. Typing a string of length N into a field, with every value of
  \<^verbatim>\<open>Math.random()\<close> a double in [0, 1): exactly N bubbling input events are
  dispatched, the k-th one after the k-th character has been written; exactly one
  bubbling change event is dispatched, last; the final value ends with the typed
  string less its line feeds and carriage returns, which the value setter removes,
  so with the typed string itself when it holds neither, and it is the typed string
  when moreover the field was empty; the sleeps are the N delays drawn, one per
  character, each the floor of the double product of the draw and 100, plus 50, each
  in [50, 150), so their sum lies in [50 N, 150 N]. For \<^verbatim>\<open>abc123\<close> and an empty
  field: 6 input events, 1 change event, final value \<^verbatim>\<open>abc123\<close>, total delay in
  [300, 900].
\<close>

theorem typeStringSimulate_events_and_delay:
  assumes "\<forall>i<length tx. is_dbl (rnd i) \<and> dbl_val (rnd i) < 1"
  shows "count_events ''input'' (fst (typeStringSimulate rnd e tx)) =
           count_events ''input'' e + length tx \<and>
         count_events ''change'' (fst (typeStringSimulate rnd e tx)) =
           count_events ''change'' e + 1 \<and>
         dispatched (fst (typeStringSimulate rnd e tx)) =
           dispatched e @
           map (\<lambda>k. (Event ''input'' True, strip_newlines (elem_value e @ take (Suc k) tx)))
             [0..<length tx] @
           [(Event ''change'' True, elem_value (fst (typeStringSimulate rnd e tx)))] \<and>
         suffix (strip_newlines tx) (elem_value (fst (typeStringSimulate rnd e tx))) \<and>
         (newline_free tx \<longrightarrow> suffix tx (elem_value (fst (typeStringSimulate rnd e tx)))) \<and>
         (newline_free tx \<and> elem_value e = [] \<longrightarrow>
            elem_value (fst (typeStringSimulate rnd e tx)) = tx) \<and>
         snd (typeStringSimulate rnd e tx) =
           map (\<lambda>i. of_int \<lfloor>dbl_val (dbl_mul (rnd i) (Dbl 100 0))\<rfloor> + 50) [0..<length tx] \<and>
         (\<forall>d \<in> set (snd (typeStringSimulate rnd e tx)). 50 \<le> d \<and> d < 150) \<and>
         50 * real (length tx) \<le> sum_list (snd (typeStringSimulate rnd e tx)) \<and>
         sum_list (snd (typeStringSimulate rnd e tx)) \<le> 150 * real (length tx)"
proof -
  let ?R = "typeStringSimulate rnd e tx"
  have sl0: "snd ?R = map (\<lambda>i. keystroke_delay (rnd i)) [0..<length tx]"
    by (simp add: typeStringSimulate_eq)
  have sl: "snd ?R = map (\<lambda>i. of_int \<lfloor>dbl_val (dbl_mul (rnd i) (Dbl 100 0))\<rfloor> + 50) [0..<length tx]"
    unfolding sl0 using assms by (intro map_cong refl) (simp add: keystroke_delay_eq(1))
  have each: "\<forall>d \<in> set (snd ?R). 50 \<le> d \<and> d \<le> 149"
    unfolding sl0 using assms by (auto simp: keystroke_delay_eq(2,3))
  then have each': "\<forall>d \<in> set (snd ?R). 50 \<le> d \<and> d < 150"
    by fastforce
  from each have "\<forall>d \<in> set (snd ?R). 50 \<le> d \<and> d \<le> 150"
    by fastforce
  from sum_list_bounds [OF this] have total:
    "50 * real (length tx) \<le> sum_list (snd ?R) \<and> sum_list (snd ?R) \<le> 150 * real (length tx)"
    by (simp add: sl0)
  have suf: "suffix (strip_newlines tx) (elem_value (fst ?R))"
    by (simp add: typeStringSimulate_eq suffix_def strip_newlines_def)
  have suf': "newline_free tx \<longrightarrow> suffix tx (elem_value (fst ?R))"
    using suf by (auto simp: strip_newlines_free)
  have emp: "newline_free tx \<and> elem_value e = [] \<longrightarrow> elem_value (fst ?R) = tx"
    by (auto simp: typeStringSimulate_eq strip_newlines_free)
  have disp: "dispatched (fst ?R) =
      dispatched e @
      map (\<lambda>k. (Event ''input'' True, strip_newlines (elem_value e @ take (Suc k) tx)))
        [0..<length tx] @
      [(Event ''change'' True, elem_value (fst ?R))]"
    by (simp add: typeStringSimulate_eq)
  from each' total sl suf suf' emp disp show ?thesis
    by (simp add: count_events_eq)
qed

theorem typeStringSimulate_events_and_delay_witness:
  "(let rnd = (\<lambda>i. [Dbl 0 0, Dbl 1 (- 1), Dbl 3062447746611937 (- 52), Dbl 1 (- 2), Dbl 3 (- 2),
                     Dbl 9007199254740991 (- 53)] ! i);
        r = typeStringSimulate rnd \<lparr>elem_value = [], dispatched = []\<rparr> ''abc123''
    in count_events ''input'' (fst r) = 6 \<and>
       count_events ''change'' (fst r) = 1 \<and>
       elem_value (fst r) = ''abc123'' \<and>
       snd r = [50, 100, 118, 75, 125, 149] \<and>
       300 \<le> sum_list (snd r) \<and> sum_list (snd r) \<le> 900)"
proof -
  define ds where "ds = [Dbl 0 0, Dbl 1 (- 1), Dbl 3062447746611937 (- 52), Dbl 1 (- 2),
    Dbl 3 (- 2), Dbl 9007199254740991 (- 53)]"
  have "list_all (\<lambda>d. is_dbl d \<and> dbl_val d < 1) ds"
    by (simp add: ds_def)
  then have h: "\<forall>i<length ''abc123''. is_dbl (ds ! i) \<and> dbl_val (ds ! i) < 1"
    by (simp add: list_all_length ds_def)
  have nf: "newline_free ''abc123''"
    by (simp add: newline_free_def)
  have k: "map keystroke_delay ds = [50, 100, 118, 75, 125, 149]"
    by (simp add: ds_def dbl_eval)
  have sl: "snd (typeStringSimulate (\<lambda>i. ds ! i) \<lparr>elem_value = [], dispatched = []\<rparr> ''abc123'') =
      map keystroke_delay ds"
    by (simp add: typeStringSimulate_eq ds_def upt_rec)
  show ?thesis
    using typeStringSimulate_events_and_delay
      [of "''abc123''" "\<lambda>i. ds ! i" "\<lparr>elem_value = [], dispatched = []\<rparr>", OF h] nf
    unfolding Let_def ds_def [symmetric] sl k
    by (simp add: count_events_def)
qed

text \<open>
  Claim C10, as stated, fails for a typed string that holds a carriage return: the
  value setter removes it, so the final value is not the initial value followed by
  the typed string.
\<close>

theorem typeStringSimulate_appends_counterexample:
  "elem_value (fst (typeStringSimulate ((!) [Dbl 1 (- 1), Dbl 0 0, Dbl 3 (- 2)]) \<lparr>elem_value = ''x'', dispatched = []\<rparr>
      [CHR ''a'', CHR 0x0D, CHR ''b''])) = ''xab'' \<and>
   elem_value (fst (typeStringSimulate ((!) [Dbl 1 (- 1), Dbl 0 0, Dbl 3 (- 2)]) \<lparr>elem_value = ''x'', dispatched = []\<rparr>
      [CHR ''a'', CHR 0x0D, CHR ''b''])) \<noteq> ''x'' @ [CHR ''a'', CHR 0x0D, CHR ''b'']"
  by (simp add: typeStringSimulate_eq strip_newlines_def)

text \<open>
  Claim C10, amended. The simulator appends to the field's value: each keystroke
  writes the value it read plus the next character, and the value setter removes
  every line feed and carriage return. So with nothing else changing the field, for
  an initial value and a typed string that hold neither, the final value is the
  initial value followed by the typed string, and the events' listeners find the
  initial value followed by one more character each time; for any other string the
  final value is that concatenation less its line feeds and carriage returns. One
  input event is dispatched per character whatever the initial value and the string.
\<close>

theorem typeStringSimulate_appends:
  "elem_value (fst (typeStringSimulate rnd e tx)) =
     (if tx = [] then elem_value e else strip_newlines (elem_value e @ tx)) \<and>
   (newline_free (elem_value e) \<and> newline_free tx \<longrightarrow>
      elem_value (fst (typeStringSimulate rnd e tx)) = elem_value e @ tx \<and>
      map snd (drop (length (dispatched e)) (dispatched (fst (typeStringSimulate rnd e tx)))) =
        map (\<lambda>k. elem_value e @ take (Suc k) tx) [0..<length tx] @ [elem_value e @ tx]) \<and>
   count_events ''input'' (fst (typeStringSimulate rnd e tx)) = count_events ''input'' e + length tx \<and>
   map snd (drop (length (dispatched e)) (dispatched (fst (typeStringSimulate rnd e tx)))) =
     map (\<lambda>k. strip_newlines (elem_value e @ take (Suc k) tx)) [0..<length tx] @
     [elem_value (fst (typeStringSimulate rnd e tx))]"
proof -
  let ?R = "typeStringSimulate rnd e tx"
  have v: "elem_value (fst ?R) =
      (if tx = [] then elem_value e else strip_newlines (elem_value e @ tx))"
    by (simp add: typeStringSimulate_eq)
  have l: "map snd (drop (length (dispatched e)) (dispatched (fst ?R))) =
      map (\<lambda>k. strip_newlines (elem_value e @ take (Suc k) tx)) [0..<length tx] @
      [elem_value (fst ?R)]"
    by (simp add: typeStringSimulate_eq comp_def)
  have "elem_value (fst ?R) = elem_value e @ tx \<and>
      map snd (drop (length (dispatched e)) (dispatched (fst ?R))) =
        map (\<lambda>k. elem_value e @ take (Suc k) tx) [0..<length tx] @ [elem_value e @ tx]"
    if nf: "newline_free (elem_value e)" "newline_free tx"
  proof -
    have a: "elem_value (fst ?R) = elem_value e @ tx"
      using nf by (simp add: v strip_newlines_free newline_free_append)
    have "map (\<lambda>k. strip_newlines (elem_value e @ take (Suc k) tx)) [0..<length tx] =
        map (\<lambda>k. elem_value e @ take (Suc k) tx) [0..<length tx]"
      using nf by (intro map_cong refl strip_newlines_free)
        (simp add: newline_free_append newline_free_take)
    with a l show ?thesis
      by simp
  qed
  with v l show ?thesis
    by (simp add: count_events_eq)
qed

theorem typeStringSimulate_appends_witness:
  "(let r = typeStringSimulate (\<lambda>i. Dbl 0 0) \<lparr>elem_value = ''x'', dispatched = []\<rparr> ''ab''
    in elem_value (fst r) = ''xab'' \<and>
       map snd (dispatched (fst r)) = [''xa'', ''xab'', ''xab''] \<and>
       count_events ''input'' (fst r) = 2)"
proof -
  have nf: "newline_free ''x'' \<and> newline_free ''ab''"
    by (simp add: newline_free_def)
  show ?thesis
    using typeStringSimulate_appends
      [of "\<lambda>i. Dbl 0 0" "\<lparr>elem_value = ''x'', dispatched = []\<rparr>" "''ab''"] nf
    by (simp add: Let_def count_events_def upt_rec strip_newlines_def)
qed

section \<open>Properties of the login state machine\<close>

lemma loop_head_sel:
  "isTyping (loop_head k i w s) = isTyping s"
  "length (tasks (loop_head k i w s)) = length (tasks s)"
  "unlock_timers (loop_head k i w s) = unlock_timers s"
  "poll (loop_head k i w s) = poll s"
  by (simp_all add: loop_head_def Let_def)

lemma resume_sel:
  "isTyping (resume k w s) = isTyping s"
  "poll (resume k w s) = poll s"
  by (simp_all add: resume_def Let_def loop_head_sel split: pc.splits)

lemma resume_counts:
  "k < length (tasks s) \<Longrightarrow>
   length (tasks (resume k w s)) + unlock_timers (resume k w s) = length (tasks s) + unlock_timers s"
  by (auto simp: resume_def Let_def loop_head_sel split: pc.splits)

lemma lock_inv_tryAttemptLogin: "lock_inv s \<Longrightarrow> lock_inv (tryAttemptLogin p s)"
  by (auto simp: lock_inv_def tryAttemptLogin_def split: if_splits)

lemma lock_inv_resume: "lock_inv s \<Longrightarrow> k < length (tasks s) \<Longrightarrow> lock_inv (resume k w s)"
  using resume_counts [of k s w]
  by (auto simp: lock_inv_def resume_sel split: if_splits)

lemma lock_inv_step: "lock_inv s \<Longrightarrow> lock_inv (step ev s)"
proof (cases ev)
  case (Tick p)
  assume "lock_inv s"
  then show ?thesis using Tick by (simp add: lock_inv_tryAttemptLogin)
next
  case (Wake k w)
  assume "lock_inv s"
  then show ?thesis using Wake by (simp add: lock_inv_resume)
next
  case UnlockFires
  assume "lock_inv s"
  then show ?thesis using UnlockFires
    by (cases "tasks s") (auto simp: lock_inv_def split: if_splits)
next
  case (PageSetsValue v)
  assume "lock_inv s"
  then show ?thesis using PageSetsValue by (simp add: lock_inv_def native_set_def)
qed

lemma lock_inv_run: "lock_inv s \<Longrightarrow> lock_inv (run evs s)"
  by (induction evs arbitrary: s) (simp_all add: lock_inv_step)

lemma lock_inv_init: "lock_inv (handleAccountsGoogle e)"
  by (simp add: lock_inv_def handleAccountsGoogle_def)

lemma poll_step: "poll (step ev s) = poll s"
  by (cases ev) (auto simp: tryAttemptLogin_def resume_sel native_set_def)

lemma poll_run: "poll (run evs s) = poll s"
  by (induction evs arbitrary: s) (simp_all add: poll_step)

lemma fst_type_loop_indep:
  "i \<le> length pw \<Longrightarrow> fst (type_loop rnd pw i (e, sl)) = fst (type_loop rnd' pw i (e, sl'))"
  by (simp add: type_loop_general)

lemma fst_type_loop_step:
  assumes "i < length pw"
  shows "fst (type_loop rnd pw i (e, sl)) =
         fst (type_loop rnd pw (Suc i) (write_char (elem_value e) (pw ! i) e, sl'))"
proof -
  have "type_loop rnd pw i (e, sl) =
      type_loop rnd pw (Suc i) (write_char (elem_value e) (pw ! i) e, sl @ [keystroke_delay (rnd i)])"
    using assms by (subst type_loop.simps) (simp add: Let_def)
  moreover have "Suc i \<le> length pw" using assms by simp
  ultimately show ?thesis
    using fst_type_loop_indep [of "Suc i" pw rnd _ _ rnd sl'] by simp
qed

lemma fst_type_loop_done:
  "length pw \<le> i \<Longrightarrow> fst (type_loop rnd pw i (e, sl)) = e"
  by (subst type_loop.simps) simp

lemma typing_run_general:
  "tasks s = [\<lparr>task_pc = InKeystroke i (elem_value (passwd s)), savedPassword = pw\<rparr>] \<Longrightarrow>
   i < length pw \<Longrightarrow> length ws = length pw - i \<Longrightarrow>
   tasks (run (map (Wake 0) ws) s) = [\<lparr>task_pc = AfterTyping, savedPassword = pw\<rparr>] \<and>
   passwd (run (map (Wake 0) ws) s) =
     dispatchEvent (Event ''change'' True) (fst (type_loop rnd pw i (passwd s, sl)))"
proof (induction ws arbitrary: s i)
  case Nil
  then show ?case by simp
next
  case (Cons w ws)
  define e where "e = write_char (elem_value (passwd s)) (pw ! i) (passwd s)"
  define s' where "s' = step (Wake 0 w) s"
  have r: "run (map (Wake 0) (w # ws)) s = run (map (Wake 0) ws) s'"
    by (simp add: s'_def)
  have f: "fst (type_loop rnd pw i (passwd s, sl)) = fst (type_loop rnd pw (Suc i) (e, sl))"
    unfolding e_def using Cons.prems(2) by (rule fst_type_loop_step)
  show ?case
  proof (cases "Suc i < length pw")
    case True
    have t: "tasks s' = [\<lparr>task_pc = InKeystroke (Suc i) (elem_value (passwd s')), savedPassword = pw\<rparr>]"
      and p: "passwd s' = e"
      using Cons.prems True by (simp_all add: s'_def e_def resume_def loop_head_def Let_def)
    have l: "length ws = length pw - Suc i"
      using Cons.prems by simp
    from Cons.IH [OF t True l] show ?thesis
      unfolding r f p .
  next
    case False
    with Cons.prems have last: "Suc i = length pw"
      by simp
    have "Suc (length ws) = length pw - i"
      using Cons.prems(3) by simp
    with last have "length ws = 0"
      by arith
    then have ws: "ws = []"
      by simp
    have d: "fst (type_loop rnd pw (Suc i) (e, sl)) = e"
      using last by (simp add: fst_type_loop_done)
    have "tasks s' = [\<lparr>task_pc = AfterTyping, savedPassword = pw\<rparr>]"
      and "passwd s' = dispatchEvent (Event ''change'' True) e"
      using Cons.prems last by (simp_all add: s'_def e_def resume_def loop_head_def Let_def)
    then show ?thesis
      unfolding r f d by (simp add: ws)
  qed
qed

text \<open>
  The state machine and the simulator agree: once a run has taken the lock, waking it
  once per character and once more, with nothing else touching the field, leaves the
  field as \<^verbatim>\<open>typeStringSimulate\<close> leaves it, and the run suspended in its last
  sleep.
\<close>

lemma typing_run:
  assumes "tasks s = [\<lparr>task_pc = AfterFocus, savedPassword = pw\<rparr>]"
    and "length ws = length pw"
  shows "tasks (run (map (Wake 0) (w # ws)) s) = [\<lparr>task_pc = AfterTyping, savedPassword = pw\<rparr>] \<and>
         passwd (run (map (Wake 0) (w # ws)) s) = fst (typeStringSimulate rnd (passwd s) pw)"
proof -
  define s' where "s' = step (Wake 0 w) s"
  have r: "run (map (Wake 0) (w # ws)) s = run (map (Wake 0) ws) s'"
    by (simp add: s'_def)
  have ts: "fst (typeStringSimulate rnd (passwd s) pw) =
      dispatchEvent (Event ''change'' True) (fst (type_loop rnd pw 0 (passwd s, [])))"
    by (simp add: typeStringSimulate_def split: prod.splits)
  show ?thesis
  proof (cases "pw = []")
    case True
    have "tasks s' = [\<lparr>task_pc = AfterTyping, savedPassword = pw\<rparr>]"
      and "passwd s' = dispatchEvent (Event ''change'' True) (passwd s)"
      using assms True by (simp_all add: s'_def resume_def loop_head_def Let_def)
    then show ?thesis
      unfolding r ts using True assms(2) by (simp add: fst_type_loop_done)
  next
    case False
    have t: "tasks s' = [\<lparr>task_pc = InKeystroke 0 (elem_value (passwd s')), savedPassword = pw\<rparr>]"
      and p: "passwd s' = passwd s"
      using assms False by (simp_all add: s'_def resume_def loop_head_def Let_def)
    have "0 < length pw" using False by simp
    from typing_run_general [OF t this, of ws rnd "[]"] assms(2) show ?thesis
      unfolding r ts p by simp
  qed
qed

lemma run_append: "run (xs @ ys) s = run ys (run xs s)"
  by (induction xs arbitrary: s) simp_all

text \<open>A run that is not disturbed ends with the lock free.\<close>

lemma lock_released_after_run:
  assumes "tasks s = [\<lparr>task_pc = AfterFocus, savedPassword = pw\<rparr>]"
    and "length ws = length pw"
  shows "\<not> isTyping (run (map (Wake 0) (w # ws @ [w']) @ [UnlockFires]) s)"
proof -
  define s1 where "s1 = run (map (Wake 0) (w # ws)) s"
  have t: "tasks s1 = [\<lparr>task_pc = AfterTyping, savedPassword = pw\<rparr>]"
    unfolding s1_def using typing_run [OF assms, of w "\<lambda>i. Dbl 0 0"] by blast
  have "run (map (Wake 0) (w # ws @ [w']) @ [UnlockFires]) s =
      step UnlockFires (step (Wake 0 w') s1)"
    unfolding s1_def using run_append [of "map (Wake 0) (w # ws)" "[Wake 0 w', UnlockFires]" s]
    by simp
  moreover have "0 < unlock_timers (step (Wake 0 w') s1)"
    using t by (simp add: resume_def Let_def)
  ultimately show ?thesis
    by simp
qed

lemmas machine_defs = handleAccountsGoogle_def tryAttemptLogin_def resume_def loop_head_def
  write_char_def native_set_def strip_newlines_def dispatchEvent_def dbl_eval

text \<open>
  Claim C1. In every state the page can reach from \<^verbatim>\<open>handleAccountsGoogle\<close>, by
  any sequence of ticks, wake-ups, unlock timers and changes of the field, at most one
  run of \<^verbatim>\<open>tryAttemptLogin\<close> is between taking the lock and its click, and the
  lock is held while there is one. \<^verbatim>\<open>tryAttemptLogin\<close> returns at once, changing
  nothing, whenever the lock is held. The run that has finished typing clicks the next
  control, then schedules the unlock after 5000, and the lock stays held; the timer,
  when it fires, frees the lock whatever the page's state; so a run that has taken the
  lock and is woken to its end leaves the lock free once its timer has fired.
\<close>

theorem one_typing_sequence_in_flight:
  "length (tasks (run evs (handleAccountsGoogle e))) \<le> 1 \<and>
   (tasks (run evs (handleAccountsGoogle e)) \<noteq> [] \<longrightarrow> isTyping (run evs (handleAccountsGoogle e))) \<and>
   (isTyping s \<longrightarrow> tryAttemptLogin p s = s) \<and>
   (k < length (tasks s) \<and> task_pc (tasks s ! k) = AfterTyping \<longrightarrow>
      trace (resume k w s) = trace s @ [ClickNext (nested_button w), SetTimeoutUnlock 5000] \<and>
      unlock_timers (resume k w s) = Suc (unlock_timers s) \<and>
      isTyping (resume k w s) = isTyping s) \<and>
   (0 < unlock_timers s \<longrightarrow> \<not> isTyping (step UnlockFires s)) \<and>
   (tasks s = [\<lparr>task_pc = AfterFocus, savedPassword = pw\<rparr>] \<and> length ws = length pw \<longrightarrow>
      \<not> isTyping (run (map (Wake 0) (w # ws @ [w']) @ [UnlockFires]) s))"
proof -
  have "lock_inv (run evs (handleAccountsGoogle e))"
    by (simp add: lock_inv_run lock_inv_init)
  then have "length (tasks (run evs (handleAccountsGoogle e))) \<le> 1"
    and "tasks (run evs (handleAccountsGoogle e)) \<noteq> [] \<longrightarrow> isTyping (run evs (handleAccountsGoogle e))"
    by (auto simp: lock_inv_def split: if_splits)
  moreover have "isTyping s \<longrightarrow> tryAttemptLogin p s = s"
    by (simp add: tryAttemptLogin_def)
  moreover have "k < length (tasks s) \<and> task_pc (tasks s ! k) = AfterTyping \<longrightarrow>
      trace (resume k w s) = trace s @ [ClickNext (nested_button w), SetTimeoutUnlock 5000] \<and>
      unlock_timers (resume k w s) = Suc (unlock_timers s) \<and>
      isTyping (resume k w s) = isTyping s"
    by (simp add: resume_def Let_def)
  moreover have "0 < unlock_timers s \<longrightarrow> \<not> isTyping (step UnlockFires s)"
    by simp
  moreover have "tasks s = [\<lparr>task_pc = AfterFocus, savedPassword = pw\<rparr>] \<and> length ws = length pw \<longrightarrow>
      \<not> isTyping (run (map (Wake 0) (w # ws @ [w']) @ [UnlockFires]) s)"
    using lock_released_after_run [of s pw ws w w'] by blast
  ultimately show ?thesis by blast
qed

theorem one_typing_sequence_in_flight_witness:
  "(let p = \<lparr>accountItem = False, passwordInput = True, nextButton = True, offsetParent = True,
              stored_password = ''ab''\<rparr>;
        w = \<lparr>math_random = Dbl 1 (- 1), nested_button = True\<rparr>;
        s0 = handleAccountsGoogle \<lparr>elem_value = [], dispatched = []\<rparr>;
        s1 = run [Tick p, Tick p, Wake 0 w, Tick p, Wake 0 w, Tick p] s0;
        s2 = run [Wake 0 w] s1;
        s3 = run [Wake 0 w] s2
    in length (tasks s1) = 1 \<and> isTyping s1 \<and> tryAttemptLogin p s1 = s1 \<and>
       task_pc (tasks s2 ! 0) = AfterTyping \<and> elem_value (passwd s2) = ''ab'' \<and>
       trace s3 = trace s2 @ [ClickNext True, SetTimeoutUnlock 5000] \<and>
       tasks s3 = [] \<and> unlock_timers s3 = 1 \<and> isTyping s3 \<and>
       isTyping (step UnlockFires s3) = False \<and>
       isTyping (run (map (Wake 0) [w, w, w, w] @ [UnlockFires]) (step (Tick p) s0)) = False)"
proof -
  define p where "p = \<lparr>accountItem = False, passwordInput = True, nextButton = True,
    offsetParent = True, stored_password = ''ab''\<rparr>"
  define w where "w = \<lparr>math_random = Dbl 1 (- 1), nested_button = True\<rparr>"
  define s0 where "s0 = handleAccountsGoogle \<lparr>elem_value = [], dispatched = []\<rparr>"
  define s1 where "s1 = run [Tick p, Tick p, Wake 0 w, Tick p, Wake 0 w, Tick p] s0"
  define s2 where "s2 = run [Wake 0 w] s1"
  define s3 where "s3 = run [Wake 0 w] s2"
  have s1: "s1 = \<lparr>isTyping = True,
      tasks = [\<lparr>task_pc = InKeystroke 1 ''a'', savedPassword = ''ab''\<rparr>],
      unlock_timers = 0,
      passwd = \<lparr>elem_value = ''a'', dispatched = [(Event ''input'' True, ''a'')]\<rparr>,
      poll = True,
      trace = [LConsole LogLevel LoginPageDetected, LConsole LogLevel PreparingInput,
               FocusPassword, Sleep 500, Sleep 100, Sleep 100]\<rparr>"
    by (simp add: s1_def s0_def p_def w_def machine_defs)
  have s2: "s2 = \<lparr>isTyping = True,
      tasks = [\<lparr>task_pc = AfterTyping, savedPassword = ''ab''\<rparr>],
      unlock_timers = 0,
      passwd = \<lparr>elem_value = ''ab'',
                dispatched = [(Event ''input'' True, ''a''), (Event ''input'' True, ''ab''),
                              (Event ''change'' True, ''ab'')]\<rparr>,
      poll = True,
      trace = [LConsole LogLevel LoginPageDetected, LConsole LogLevel PreparingInput,
               FocusPassword, Sleep 500, Sleep 100, Sleep 100,
               LConsole LogLevel InputDone, Sleep 1050]\<rparr>"
    by (simp add: s2_def s1 w_def machine_defs)
  have s3: "s3 = resume 0 w s2"
    by (simp add: s3_def s2)
  have t: "tasks (step (Tick p) s0) = [\<lparr>task_pc = AfterFocus, savedPassword = ''ab''\<rparr>] \<and>
      length [w, w] = length ''ab''"
    by (simp add: s0_def p_def machine_defs)
  have a: "tasks s1 \<noteq> []" "isTyping s1"
      "0 < length (tasks s2) \<and> task_pc (tasks s2 ! 0) = AfterTyping"
    by (simp_all add: s1 s2)
  have b: "0 < unlock_timers s3"
    by (simp add: s3 s2 w_def machine_defs)
  have c1: "length (tasks s1) = 1" "tasks s3 = []" "unlock_timers s3 = 1" "isTyping s3"
      "elem_value (passwd s2) = ''ab''" "nested_button w"
    by (simp_all add: s3 s1 s2 w_def machine_defs)
  show ?thesis
    using one_typing_sequence_in_flight
            [of "[Tick p, Tick p, Wake 0 w, Tick p, Wake 0 w, Tick p]"
                "\<lparr>elem_value = [], dispatched = []\<rparr>" s1 p 0 w]
          one_typing_sequence_in_flight [of "[]" "\<lparr>elem_value = [], dispatched = []\<rparr>" s2 p 0 w]
          one_typing_sequence_in_flight [of "[]" "\<lparr>elem_value = [], dispatched = []\<rparr>" s3 p 0 w]
          one_typing_sequence_in_flight
            [of "[]" "\<lparr>elem_value = [], dispatched = []\<rparr>" "step (Tick p) s0" p 0 w "''ab''"
                "[w, w]" w]
          a b c1 t
    unfolding Let_def p_def [symmetric] w_def [symmetric] s0_def [symmetric] s1_def [symmetric]
      s2_def [symmetric] s3_def [symmetric]
    by (simp add: s3 [symmetric])
qed

text \<open>
  Claim C5. A tick starts a password entry (adds a suspended run) only if the password
  input and the next control are both present, the input is visible and empty, the
  lock is free and a credential is stored (and no account item is found); it then
  takes the lock, focuses the field and sleeps 500. A tick that starts no entry leaves
  the lock as it was and does not focus the field; no tick changes the field. With no
  credential stored no entry starts, and when the other conditions hold the tick only
  logs a warning.
\<close>

theorem password_entry_begins_only_when_ready:
  "(tasks (tryAttemptLogin p s) \<noteq> tasks s \<longrightarrow>
      passwordInput p \<and> nextButton p \<and> offsetParent p \<and> elem_value (passwd s) = [] \<and>
      \<not> isTyping s \<and> stored_password p \<noteq> [] \<and> \<not> accountItem p \<and>
      tryAttemptLogin p s =
        s\<lparr>isTyping := True,
          tasks := tasks s @ [\<lparr>task_pc = AfterFocus, savedPassword = stored_password p\<rparr>],
          trace := trace s @ [LConsole LogLevel PreparingInput, FocusPassword, Sleep 500]\<rparr>) \<and>
   (tasks (tryAttemptLogin p s) = tasks s \<longrightarrow>
      isTyping (tryAttemptLogin p s) = isTyping s \<and>
      FocusPassword \<notin> set (drop (length (trace s)) (trace (tryAttemptLogin p s)))) \<and>
   passwd (tryAttemptLogin p s) = passwd s \<and>
   (stored_password p = [] \<longrightarrow> tasks (tryAttemptLogin p s) = tasks s) \<and>
   (stored_password p = [] \<and> \<not> isTyping s \<and> \<not> accountItem p \<and>
    passwordInput p \<and> nextButton p \<and> offsetParent p \<and> elem_value (passwd s) = [] \<longrightarrow>
      tryAttemptLogin p s = s\<lparr>trace := trace s @ [LConsole WarnLevel PasswordNotSet]\<rparr>)"
  by (auto simp: tryAttemptLogin_def)

theorem password_entry_begins_only_when_ready_witness:
  "(let p = \<lparr>accountItem = False, passwordInput = True, nextButton = True, offsetParent = True,
              stored_password = ''ab''\<rparr>;
        q = \<lparr>accountItem = False, passwordInput = True, nextButton = True, offsetParent = True,
              stored_password = []\<rparr>;
        s0 = handleAccountsGoogle \<lparr>elem_value = [], dispatched = []\<rparr>
    in tasks (tryAttemptLogin p s0) = [\<lparr>task_pc = AfterFocus, savedPassword = ''ab''\<rparr>] \<and>
       isTyping (tryAttemptLogin p s0) \<and>
       tryAttemptLogin q s0 = s0\<lparr>trace := trace s0 @ [LConsole WarnLevel PasswordNotSet]\<rparr> \<and>
       tasks (tryAttemptLogin q s0) = [] \<and>
       isTyping (tryAttemptLogin q s0) = False)"
  using password_entry_begins_only_when_ready
          [of "\<lparr>accountItem = False, passwordInput = True, nextButton = True, offsetParent = True,
                stored_password = ''ab''\<rparr>"
              "handleAccountsGoogle \<lparr>elem_value = [], dispatched = []\<rparr>"]
        password_entry_begins_only_when_ready
          [of "\<lparr>accountItem = False, passwordInput = True, nextButton = True, offsetParent = True,
                stored_password = []\<rparr>"
              "handleAccountsGoogle \<lparr>elem_value = [], dispatched = []\<rparr>"]
  by (simp add: Let_def handleAccountsGoogle_def tryAttemptLogin_def)

text \<open>
  Claim C6. On a tick with the lock free on which the account-list selector matches,
  the account item is clicked exactly once and the run returns: nothing but the log
  line and the click happens, so no run is suspended, the lock is not taken and the
  field is untouched. No event stops the interval: it is running in every reachable
  state.
\<close>

theorem account_item_clicked_once:
  "(accountItem p \<and> \<not> isTyping s \<and> poll s \<longrightarrow>
      step (Tick p) s =
        s\<lparr>trace := trace s @ [LConsole LogLevel AccountListFound, ClickAccountItem]\<rparr> \<and>
      count_list (drop (length (trace s)) (trace (step (Tick p) s))) ClickAccountItem = 1 \<and>
      tasks (step (Tick p) s) = tasks s \<and>
      isTyping (step (Tick p) s) = isTyping s \<and>
      passwd (step (Tick p) s) = passwd s) \<and>
   poll (step ev s) = poll s \<and>
   poll (run evs (handleAccountsGoogle e))"
  by (auto simp: tryAttemptLogin_def poll_step poll_run handleAccountsGoogle_def)

theorem account_item_clicked_once_witness:
  "(let p = \<lparr>accountItem = True, passwordInput = True, nextButton = True, offsetParent = True,
              stored_password = ''ab''\<rparr>;
        s0 = handleAccountsGoogle \<lparr>elem_value = [], dispatched = []\<rparr>
    in trace (step (Tick p) s0) =
         [LConsole LogLevel LoginPageDetected, LConsole LogLevel AccountListFound, ClickAccountItem] \<and>
       tasks (step (Tick p) s0) = [] \<and>
       isTyping (step (Tick p) s0) = False \<and>
       poll (step (Tick p) s0))"
  using account_item_clicked_once
          [of "\<lparr>accountItem = True, passwordInput = True, nextButton = True, offsetParent = True,
                stored_password = ''ab''\<rparr>"
              "handleAccountsGoogle \<lparr>elem_value = [], dispatched = []\<rparr>"]
  by (simp add: Let_def handleAccountsGoogle_def)

section \<open>Properties of the interstitial sign-in page\<close>

lemma check_ticks_stopped: "\<not> checkBtn s \<Longrightarrow> check_ticks ps s = s"
  by (induction ps arbitrary: s) (simp_all add: check_tick_def)

lemma check_ticks_no_match:
  "\<forall>p \<in> set ps. js_or (primary p) (secondary p) = None \<Longrightarrow> check_ticks ps s = s"
  by (induction ps arbitrary: s) (simp_all add: check_tick_def)

lemma check_ticks_append: "check_ticks (qs @ ps) s = check_ticks ps (check_ticks qs s)"
  by (induction qs arbitrary: s) simp_all

lemma check_ticks_shape:
  "check_ticks ps handleLabsAuthPage = handleLabsAuthPage \<or>
   (\<exists>b. check_ticks ps handleLabsAuthPage =
      \<lparr>checkBtn = False,
       auth_trace = [AConsole AuthPageDetected, AConsole ButtonFound, ClearInterval, ClickButton b]\<rparr>)"
proof (induction ps rule: rev_induct)
  case Nil
  then show ?case by simp
next
  case (snoc p ps)
  then show ?case
    by (auto simp: check_ticks_append check_tick_def handleLabsAuthPage_def split: option.splits)
qed

text \<open>
  Claim C7. A tick on the interstitial page takes the element of the primary selector
  when there is one and of the secondary selector otherwise. After any number of ticks
  that find neither, the first tick that finds one logs, clears the interval and then
  clicks that element, and whatever ticks come later change nothing: the interval is
  cleared at most once in any run, and there are as many clicks as clearings.
\<close>

theorem interstitial_poll_clicks_once:
  "(checkBtn s \<and> js_or (primary p) (secondary p) = Some btn \<longrightarrow>
      check_tick p s =
        s\<lparr>checkBtn := False,
          auth_trace := auth_trace s @ [AConsole ButtonFound, ClearInterval, ClickButton btn]\<rparr> \<and>
      check_ticks (p # ps) s = check_tick p s) \<and>
   (js_or (primary p) (secondary p) = None \<longrightarrow> check_tick p s = s) \<and>
   js_or (Some b1) other = Some b1 \<and> js_or None other = other \<and>
   ((\<forall>q \<in> set qs. js_or (primary q) (secondary q) = None) \<and>
    js_or (primary p) (secondary p) = Some btn \<longrightarrow>
      auth_trace (check_ticks (qs @ p # ps) handleLabsAuthPage) =
        [AConsole AuthPageDetected, AConsole ButtonFound, ClearInterval, ClickButton btn] \<and>
      \<not> checkBtn (check_ticks (qs @ p # ps) handleLabsAuthPage)) \<and>
   count_list (auth_trace (check_ticks ps handleLabsAuthPage)) ClearInterval \<le> 1 \<and>
   length (clicks (auth_trace (check_ticks ps handleLabsAuthPage))) =
     count_list (auth_trace (check_ticks ps handleLabsAuthPage)) ClearInterval"
proof -
  have one: "check_tick p s =
        s\<lparr>checkBtn := False,
          auth_trace := auth_trace s @ [AConsole ButtonFound, ClearInterval, ClickButton btn]\<rparr> \<and>
      check_ticks (p # ps) s = check_tick p s"
    if "checkBtn s" "js_or (primary p) (secondary p) = Some btn"
    using that by (simp add: check_tick_def check_ticks_stopped)
  have none: "check_tick p s = s" if "js_or (primary p) (secondary p) = None"
    using that by (simp add: check_tick_def)
  have first: "auth_trace (check_ticks (qs @ p # ps) handleLabsAuthPage) =
        [AConsole AuthPageDetected, AConsole ButtonFound, ClearInterval, ClickButton btn] \<and>
      \<not> checkBtn (check_ticks (qs @ p # ps) handleLabsAuthPage)"
    if "\<forall>q \<in> set qs. js_or (primary q) (secondary q) = None"
      "js_or (primary p) (secondary p) = Some btn"
    using that
    by (simp add: check_ticks_append check_ticks_no_match check_tick_def check_ticks_stopped
        handleLabsAuthPage_def)
  have counts: "count_list (auth_trace (check_ticks ps handleLabsAuthPage)) ClearInterval \<le> 1 \<and>
     length (clicks (auth_trace (check_ticks ps handleLabsAuthPage))) =
       count_list (auth_trace (check_ticks ps handleLabsAuthPage)) ClearInterval"
    using check_ticks_shape [of ps] by (auto simp: handleLabsAuthPage_def)
  have fallback: "js_or (Some b1) other = Some b1 \<and> js_or None other = other"
    by (simp add: js_or_def)
  from one none first counts fallback show ?thesis
    by blast
qed

theorem interstitial_poll_clicks_once_witness:
  "auth_trace (check_ticks
      [\<lparr>primary = None, secondary = None\<rparr>, \<lparr>primary = None, secondary = Some 7\<rparr>,
       \<lparr>primary = Some 3, secondary = Some 7\<rparr>] handleLabsAuthPage) =
     [AConsole AuthPageDetected, AConsole ButtonFound, ClearInterval, ClickButton 7] \<and>
   check_tick \<lparr>primary = Some 3, secondary = Some 7\<rparr> handleLabsAuthPage =
     \<lparr>checkBtn = False,
      auth_trace = [AConsole AuthPageDetected, AConsole ButtonFound, ClearInterval, ClickButton 3]\<rparr> \<and>
   check_tick \<lparr>primary = None, secondary = None\<rparr> handleLabsAuthPage = handleLabsAuthPage"
  using interstitial_poll_clicks_once
          [of handleLabsAuthPage "\<lparr>primary = None, secondary = Some 7\<rparr>" 7
              "[\<lparr>primary = Some 3, secondary = Some 7\<rparr>]" _ _ "[\<lparr>primary = None, secondary = None\<rparr>]"]
        interstitial_poll_clicks_once
          [of handleLabsAuthPage "\<lparr>primary = Some 3, secondary = Some 7\<rparr>" 3]
        interstitial_poll_clicks_once
          [of handleLabsAuthPage "\<lparr>primary = None, secondary = None\<rparr>"]
  by (simp add: js_or_def handleLabsAuthPage_def check_tick_def)

end
